theory Spec2Isabelle
  imports Main "HOL-Library.Sublist" "HOL-Library.Code_Target_Nat"
begin

section \<open>Go strings\<close>

text \<open>
  A Go string is a sequence of bytes: \<^verbatim>\<open>len(s)\<close> counts bytes and \<^verbatim>\<open>s[:n]\<close> cuts
  at a byte offset. The model uses \<^typ>\<open>string\<close> (a list of 8-bit characters), so
  \<^const>\<open>length\<close> is \<^verbatim>\<open>len\<close> and \<^const>\<open>take\<close> is the slice \<^verbatim>\<open>s[:n]\<close> for
  \<open>0 \<le> n \<le> len(s)\<close>. The functions below are the ones of package \<^verbatim>\<open>strings\<close> that
  \<^verbatim>\<open>main.go\<close> calls.
\<close>

abbreviation (input) NL :: char where
  "NL \<equiv> CHR 0x0A"

definition HasPrefix :: "string \<Rightarrow> string \<Rightarrow> bool" where
  "HasPrefix s p = prefix p s"

definition TrimPrefix :: "string \<Rightarrow> string \<Rightarrow> string" where
  "TrimPrefix s p = (if HasPrefix s p then drop (length p) s else s)"

definition Contains :: "string \<Rightarrow> string \<Rightarrow> bool" where
  "Contains s sub = sublist sub s"

text \<open>
  \<^verbatim>\<open>strings.ReplaceAll(s, old, new)\<close> replaces the non-overlapping occurrences of
  \<open>old\<close>, found from left to right. The source passes non-empty literals for \<open>old\<close>
  only; the equations cover that case (for an empty \<open>old\<close> Go inserts \<open>new\<close> around
  every UTF-8 sequence, which no call of the source needs).
\<close>

fun ReplaceAll :: "string \<Rightarrow> string \<Rightarrow> string \<Rightarrow> string" where
  "ReplaceAll [] (a # old) new = []"
| "ReplaceAll (c # cs) (a # old) new =
     (if prefix (a # old) (c # cs)
      then new @ ReplaceAll (drop (length old) cs) (a # old) new
      else c # ReplaceAll cs (a # old) new)"

text \<open>
  \<^verbatim>\<open>strings.Split(s, sep)\<close> for a non-empty separator: the pieces between the
  non-overlapping occurrences of \<open>sep\<close>; always at least one piece.
\<close>

fun Split :: "string \<Rightarrow> string \<Rightarrow> string list" where
  "Split [] (a # sep) = [[]]"
| "Split (c # cs) (a # sep) =
     (if prefix (a # sep) (c # cs)
      then [] # Split (drop (length sep) cs) (a # sep)
      else (case Split cs (a # sep) of
              [] \<Rightarrow> [[c]]
            | l # ls \<Rightarrow> (c # l) # ls))"

fun Join :: "string list \<Rightarrow> string \<Rightarrow> string" where
  "Join [] sep = []"
| "Join [x] sep = x"
| "Join (x # y # ys) sep = x @ sep @ Join (y # ys) sep"

text \<open>
  \<^verbatim>\<open>strings.TrimSpace\<close> removes leading and trailing white space as Unicode defines
  it (\<^verbatim>\<open>unicode.IsSpace\<close>). On bytes these are the UTF-8 encodings below: the six
  ASCII ones, U+0085, U+00A0, U+1680, U+2000 to U+200A, U+2028, U+2029, U+202F,
  U+205F and U+3000. A byte sequence that is not one of them (also an invalid
  one) stops the trimming.
\<close>

definition spaceSeqs :: "string list" where
  "spaceSeqs =
     [[CHR 0x09], [CHR 0x0A], [CHR 0x0B], [CHR 0x0C], [CHR 0x0D], [CHR 0x20],
      [CHR 0xC2, CHR 0x85], [CHR 0xC2, CHR 0xA0],
      [CHR 0xE1, CHR 0x9A, CHR 0x80],
      [CHR 0xE2, CHR 0x80, CHR 0x80], [CHR 0xE2, CHR 0x80, CHR 0x81],
      [CHR 0xE2, CHR 0x80, CHR 0x82], [CHR 0xE2, CHR 0x80, CHR 0x83],
      [CHR 0xE2, CHR 0x80, CHR 0x84], [CHR 0xE2, CHR 0x80, CHR 0x85],
      [CHR 0xE2, CHR 0x80, CHR 0x86], [CHR 0xE2, CHR 0x80, CHR 0x87],
      [CHR 0xE2, CHR 0x80, CHR 0x88], [CHR 0xE2, CHR 0x80, CHR 0x89],
      [CHR 0xE2, CHR 0x80, CHR 0x8A],
      [CHR 0xE2, CHR 0x80, CHR 0xA8], [CHR 0xE2, CHR 0x80, CHR 0xA9],
      [CHR 0xE2, CHR 0x80, CHR 0xAF],
      [CHR 0xE2, CHR 0x81, CHR 0x9F],
      [CHR 0xE3, CHR 0x80, CHR 0x80]]"

definition leadingSpace :: "string \<Rightarrow> string option" where
  "leadingSpace s = find (\<lambda>w. prefix w s) spaceSeqs"

definition trailingSpace :: "string \<Rightarrow> string option" where
  "trailingSpace s = find (\<lambda>w. suffix w s) spaceSeqs"

lemma spaceSeqs_nonempty: "w \<in> set spaceSeqs \<Longrightarrow> w \<noteq> []"
  by (auto simp: spaceSeqs_def)

lemma leadingSpace_Some: "leadingSpace s = Some w \<Longrightarrow> w \<noteq> [] \<and> prefix w s"
  by (auto simp: leadingSpace_def find_Some_iff spaceSeqs_nonempty)

lemma trailingSpace_Some: "trailingSpace s = Some w \<Longrightarrow> w \<noteq> [] \<and> suffix w s"
  by (auto simp: trailingSpace_def find_Some_iff spaceSeqs_nonempty)

function TrimLeftSpace :: "string \<Rightarrow> string" where
  "TrimLeftSpace s =
     (case leadingSpace s of
        None \<Rightarrow> s
      | Some w \<Rightarrow> TrimLeftSpace (drop (length w) s))"
  by pat_completeness auto
termination
proof (relation "measure length")
  fix s w
  assume "leadingSpace s = Some w"
  then have "w \<noteq> []" and "prefix w s"
    using leadingSpace_Some by blast+
  then have "s \<noteq> []" by auto
  with \<open>w \<noteq> []\<close> show "(drop (length w) s, s) \<in> measure length" by simp
qed simp

declare TrimLeftSpace.simps [simp del]

function TrimRightSpace :: "string \<Rightarrow> string" where
  "TrimRightSpace s =
     (case trailingSpace s of
        None \<Rightarrow> s
      | Some w \<Rightarrow> TrimRightSpace (take (length s - length w) s))"
  by pat_completeness auto
termination
proof (relation "measure length")
  fix s w
  assume "trailingSpace s = Some w"
  then have "w \<noteq> []" and "suffix w s"
    using trailingSpace_Some by blast+
  then have "s \<noteq> []" by auto
  with \<open>w \<noteq> []\<close> show "(take (length s - length w) s, s) \<in> measure length" by simp
qed simp

declare TrimRightSpace.simps [simp del]

definition TrimSpace :: "string \<Rightarrow> string" where
  "TrimSpace s = TrimRightSpace (TrimLeftSpace s)"

section \<open>URL and text normalization\<close>

text \<open>\<^verbatim>\<open>ensureProtocol\<close>, main.go lines 893 to 898.\<close>

definition ensureProtocol :: "string \<Rightarrow> string" where
  "ensureProtocol url =
     (if \<not> HasPrefix url ''http://'' \<and> \<not> HasPrefix url ''https://''
      then ''http://'' @ url
      else url)"

text \<open>
  The loop of \<^verbatim>\<open>cleanMarkdown\<close> that collapses blank lines (lines 908 to 910). Each
  round with an occurrence makes the text shorter, which is why the loop ends.
\<close>

lemma ReplaceAll_length_le:
  "length new \<le> Suc (length old) \<Longrightarrow> length (ReplaceAll s (a # old) new) \<le> length s"
proof (induction s rule: length_induct)
  case (1 s)
  show ?case
  proof (cases s)
    case Nil
    then show ?thesis by simp
  next
    case (Cons c cs)
    show ?thesis
    proof (cases "prefix (a # old) (c # cs)")
      case True
      then have len: "length old \<le> length cs"
        using prefix_length_le by fastforce
      have "length (drop (length old) cs) < length s"
        using Cons by simp
      with 1 have "length (ReplaceAll (drop (length old) cs) (a # old) new)
          \<le> length (drop (length old) cs)" by blast
      with True len 1(2) Cons show ?thesis by simp
    next
      case False
      have "length (ReplaceAll cs (a # old) new) \<le> length cs"
        using 1 Cons by simp
      with False Cons show ?thesis by auto
    qed
  qed
qed

lemma ReplaceAll_shorter:
  assumes "length new < Suc (length old)" and "sublist (a # old) s"
  shows "length (ReplaceAll s (a # old) new) < length s"
  using assms(2)
proof (induction s)
  case Nil
  then show ?case by simp
next
  case (Cons c cs)
  show ?case
  proof (cases "prefix (a # old) (c # cs)")
    case True
    then have len: "length old \<le> length cs"
      using prefix_length_le by fastforce
    have "length (ReplaceAll (drop (length old) cs) (a # old) new) \<le> length cs - length old"
      using ReplaceAll_length_le [of new old "drop (length old) cs" a] assms(1) by simp
    with True len assms(1) show ?thesis by simp
  next
    case False
    with Cons.prems have "sublist (a # old) cs" by (auto simp: sublist_Cons_right)
    with Cons.IH False show ?thesis by auto
  qed
qed
function collapseBlankLines :: "string \<Rightarrow> string" where
  "collapseBlankLines markdown =
     (if Contains markdown [NL, NL, NL]
      then collapseBlankLines (ReplaceAll markdown [NL, NL, NL] [NL, NL])
      else markdown)"
  by pat_completeness auto
termination
  by (relation "measure length") (auto simp: Contains_def ReplaceAll_shorter)

declare collapseBlankLines.simps [simp del]

text \<open>The body of the bullet loop (lines 914 to 918), applied to one line.\<close>

definition normalizeBullet :: "string \<Rightarrow> string" where
  "normalizeBullet line =
     (if HasPrefix line ''* '' \<or> HasPrefix line ''- ''
      then ''- '' @ TrimPrefix (TrimPrefix line ''* '') ''- ''
      else line)"

text \<open>\<^verbatim>\<open>cleanMarkdown\<close>, lines 901 to 921.\<close>

definition cleanMarkdown :: "string \<Rightarrow> string" where
  "cleanMarkdown markdown =
     (let m1 = ReplaceAll markdown [NL, CHR ''#'', CHR '' ''] [NL, CHR ''#'', CHR '' ''];
          m2 = ReplaceAll m1 [NL, CHR ''#'', CHR ''#'', CHR '' '']
                 [NL, CHR ''#'', CHR ''#'', CHR '' ''];
          m3 = ReplaceAll m2 [NL, CHR ''#'', CHR ''#'', CHR ''#'', CHR '' '']
                 [NL, CHR ''#'', CHR ''#'', CHR ''#'', CHR '' ''];
          m4 = collapseBlankLines m3;
          lines = map normalizeBullet (Split m4 [NL])
      in TrimSpace (Join lines [NL]))"

section \<open>Numbers in text\<close>

text \<open>The verb \<^verbatim>\<open>%d\<close> of \<^verbatim>\<open>fmt.Sprintf\<close>: a decimal numeral, with a minus sign if negative.\<close>

definition digitChar :: "nat \<Rightarrow> char" where
  "digitChar d = char_of (48 + d)"

function natDigits :: "nat \<Rightarrow> string" where
  "natDigits n =
     (if n < 10 then [digitChar n] else natDigits (n div 10) @ [digitChar (n mod 10)])"
  by pat_completeness auto
termination
  by (relation "measure id") auto

declare natDigits.simps [simp del]

definition fmtD :: "int \<Rightarrow> string" where
  "fmtD i = (if i < 0 then CHR ''-'' # natDigits (nat (- i)) else natDigits (nat i))"

text \<open>
  \<^verbatim>\<open>strconv.Atoi\<close>: an optional sign and then decimal digits only; the value must fit
  the 64-bit \<^verbatim>\<open>int\<close>. \<open>None\<close> stands for a returned error.
\<close>

definition isDigit :: "char \<Rightarrow> bool" where
  "isDigit c = (48 \<le> (of_char c :: nat) \<and> (of_char c :: nat) \<le> 57)"

definition decimalValue :: "string \<Rightarrow> int" where
  "decimalValue ds = foldl (\<lambda>acc c. 10 * acc + (of_char c - 48)) 0 ds"

definition Atoi :: "string \<Rightarrow> int option" where
  "Atoi s =
     (let neg = (case s of c # cs \<Rightarrow> c = CHR ''-'' | [] \<Rightarrow> False);
          ds = (case s of c # cs \<Rightarrow> if c = CHR ''-'' \<or> c = CHR ''+'' then cs else s | [] \<Rightarrow> [])
      in if ds = [] \<or> \<not> list_all isDigit ds then None
         else let v = (if neg then - decimalValue ds else decimalValue ds)
              in if v < - (2 ^ 63) \<or> 2 ^ 63 - 1 < v then None else Some v)"

section \<open>Configuration and command line\<close>

record FormInput =
  Name :: string
  Value :: string

record Config =
  URL :: string
  Profile :: string
  FormID :: string
  Inputs :: "FormInput list"
  AfterSubmitURL :: string
  JSCode :: string
  ScreenshotPath :: string
  TruncateAfter :: int
  RawFlag :: bool

definition DEFAULT_TRUNCATE_AFTER :: int where
  "DEFAULT_TRUNCATE_AFTER = 100000"

definition defaultConfig :: Config where
  "defaultConfig =
     \<lparr>URL = [], Profile = ''default'', FormID = [], Inputs = [], AfterSubmitURL = [],
      JSCode = [], ScreenshotPath = [], TruncateAfter = DEFAULT_TRUNCATE_AFTER,
      RawFlag = False\<rparr>"

text \<open>
  One round of the loop of \<^verbatim>\<open>parseArgs\<close> (the \<^verbatim>\<open>switch\<close>, lines 798 to 856): from
  the argument at index \<open>i\<close> and the arguments after it to the new configuration
  and the arguments still to read. An option that takes a value reads it only if
  one is left (\<^verbatim>\<open>i+1 < len(args)\<close>) and then steps over it. \<^verbatim>\<open>--help\<close> prints the
  help and leaves the process with status 0: the result \<open>Inl 0\<close>.
\<close>

definition parseStep :: "Config \<Rightarrow> string \<Rightarrow> string list \<Rightarrow> int + Config \<times> string list" where
  "parseStep config arg rest =
     (if arg = ''--help'' then Inl 0
      else if arg = ''--raw'' then Inr (config\<lparr>RawFlag := True\<rparr>, rest)
      else if arg = ''--truncate-after'' then
        (case rest of
           [] \<Rightarrow> Inr (config, [])
         | v # rest' \<Rightarrow>
             (case Atoi v of
                None \<Rightarrow> Inr (config, rest')
              | Some val \<Rightarrow>
                  if val > 0 then Inr (config\<lparr>TruncateAfter := val\<rparr>, rest')
                  else Inr (config, rest')))
      else if arg = ''--screenshot'' then
        (case rest of
           [] \<Rightarrow> Inr (config, [])
         | v # rest' \<Rightarrow> Inr (config\<lparr>ScreenshotPath := v\<rparr>, rest'))
      else if arg = ''--form'' then
        (case rest of
           [] \<Rightarrow> Inr (config, [])
         | v # rest' \<Rightarrow> Inr (config\<lparr>FormID := v\<rparr>, rest'))
      else if arg = ''--input'' then
        (case rest of
           [] \<Rightarrow> Inr (config, [])
         | name # rest1 \<Rightarrow>
             (case rest1 of
                [] \<Rightarrow> Inr (config, [])
              | v # rest2 \<Rightarrow>
                  if v = ''--value'' then
                    (case rest2 of
                       [] \<Rightarrow> Inr (config, [])
                     | val # rest3 \<Rightarrow>
                         Inr (config\<lparr>Inputs := Inputs config @ [\<lparr>Name = name, Value = val\<rparr>]\<rparr>,
                              rest3))
                  else Inr (config, v # rest2)))
      else if arg = ''--value'' then Inr (config, rest)
      else if arg = ''--after-submit'' then
        (case rest of
           [] \<Rightarrow> Inr (config, [])
         | v # rest' \<Rightarrow> Inr (config\<lparr>AfterSubmitURL := ensureProtocol v\<rparr>, rest'))
      else if arg = ''--js'' then
        (case rest of
           [] \<Rightarrow> Inr (config, [])
         | v # rest' \<Rightarrow> Inr (config\<lparr>JSCode := v\<rparr>, rest'))
      else if arg = ''--profile'' then
        (case rest of
           [] \<Rightarrow> Inr (config, [])
         | v # rest' \<Rightarrow> Inr (config\<lparr>Profile := v\<rparr>, rest'))
      else if URL config = [] \<and> \<not> HasPrefix arg ''--'' then Inr (config\<lparr>URL := arg\<rparr>, rest)
      else Inr (config, rest))"

lemma parseStep_rest:
  "parseStep config arg rest = Inr (config', rest') \<Longrightarrow> length rest' \<le> length rest"
  unfolding parseStep_def
  by (simp split: if_splits list.splits option.splits) auto

text \<open>The loop of \<^verbatim>\<open>parseArgs\<close> (lines 795 to 857) over the arguments still to read.\<close>

function parseLoop :: "Config \<Rightarrow> string list \<Rightarrow> int + Config" where
  "parseLoop config [] = Inr config"
| "parseLoop config (arg # rest) =
     (case parseStep config arg rest of
        Inl status \<Rightarrow> Inl status
      | Inr (config', rest') \<Rightarrow> parseLoop config' rest')"
  by pat_completeness auto
termination
proof (relation "measure (\<lambda>(config, args). length args)")
  fix config :: Config and arg rest x2 config' rest'
  assume "parseStep config arg rest = Inr x2" and "(config', rest') = x2"
  then have "length rest' \<le> length rest"
    using parseStep_rest by metis
  then show "((config', rest'), config, arg # rest) \<in> measure (\<lambda>(config, args). length args)"
    by simp
qed simp

text \<open>\<^verbatim>\<open>parseArgs\<close>, lines 788 to 860; the argument is \<^verbatim>\<open>os.Args[1:]\<close>.\<close>

definition parseArgs :: "string list \<Rightarrow> int + Config" where
  "parseArgs args = parseLoop defaultConfig args"

section \<open>The browser behind the driver\<close>

text \<open>
  The program talks to a browser through the WebDriver client library and to the
  operating system. Both are outside the repository, so they are a parameter of
  the model: a record of operations over a browser state \<open>'b\<close>, each returning its
  Go result and the next state. An operation that returns \<^verbatim>\<open>(T, error)\<close> yields
  \<open>Inl message\<close> for an error; one that returns only an \<^verbatim>\<open>error\<close> yields
  \<open>Some message\<close>. \<open>envSleep\<close> is what the page does while the program sleeps;
  \<open>envLatency\<close> is the time a call takes in a state of the browser (for a sleep,
  the time slept beyond the duration asked for);
  \<open>envHtml2text\<close> is \<^verbatim>\<open>html2text.FromString\<close>; \<open>envUnicodeToUpper\<close> is the
  upper-casing of a string that has a non-ASCII byte; \<open>envFilepathJoin\<close> is
  \<^verbatim>\<open>filepath.Join\<close>.
\<close>

datatype jsval =
    JNull
  | JBool bool
  | JNum int
  | JStr string
  | JArr "jsval list"
  | JObj "(string \<times> jsval) list"

record LogMessage =
  Level :: string
  Message :: string

text \<open>
  Durations are Go's \<^verbatim>\<open>time.Duration\<close>: a number of nanoseconds.
\<close>

definition Microsecond :: nat where
  "Microsecond = 1000"

definition Millisecond :: nat where
  "Millisecond = 1000000"

definition Second :: nat where
  "Second = 1000000000"

text \<open>
  A run is observed through its trace: every call the program makes on the driver,
  the operating system, the clock and the standard output, in order, each with
  the reply it got.
\<close>

datatype Call =
    NewGeckoDriverService
  | ServiceStop
  | MkdirAll string
  | NewRemote string
  | Quit
  | Get string
  | ExecuteScript string
  | FindElement string
  | Clear nat
  | SendKeys nat string
  | Click nat
  | CurrentURL
  | PageSource
  | BrowserLog
  | Screenshot
  | WriteFile string string
  | WaitWithTimeout nat
  | Sleep nat
  | Print string

datatype Reply =
    Done
  | Failed string
  | Text string
  | Returned jsval
  | Element nat
  | Entries "LogMessage list"

record 'b Env =
  envUserHomeDir :: "string + string"
  envFilepathJoin :: "string list \<Rightarrow> string"
  envNewGeckoDriverService :: "'b \<Rightarrow> string option \<times> 'b"
  envMkdirAll :: "string \<Rightarrow> 'b \<Rightarrow> string option \<times> 'b"
  envNewRemote :: "string \<Rightarrow> 'b \<Rightarrow> string option \<times> 'b"
  envGet :: "string \<Rightarrow> 'b \<Rightarrow> string option \<times> 'b"
  envExecuteScript :: "string \<Rightarrow> 'b \<Rightarrow> (string + jsval) \<times> 'b"
  envFindElement :: "string \<Rightarrow> 'b \<Rightarrow> (string + nat) \<times> 'b"
  envClear :: "nat \<Rightarrow> 'b \<Rightarrow> string option \<times> 'b"
  envSendKeys :: "nat \<Rightarrow> string \<Rightarrow> 'b \<Rightarrow> string option \<times> 'b"
  envClick :: "nat \<Rightarrow> 'b \<Rightarrow> string option \<times> 'b"
  envCurrentURL :: "'b \<Rightarrow> (string + string) \<times> 'b"
  envPageSource :: "'b \<Rightarrow> (string + string) \<times> 'b"
  envLog :: "'b \<Rightarrow> (string + LogMessage list) \<times> 'b"
  envScreenshot :: "'b \<Rightarrow> (string + string) \<times> 'b"
  envWriteFile :: "string \<Rightarrow> string \<Rightarrow> 'b \<Rightarrow> string option \<times> 'b"
  envSleep :: "nat \<Rightarrow> 'b \<Rightarrow> 'b"
  envLatency :: "Call \<Rightarrow> 'b \<Rightarrow> nat"
  envHtml2text :: "string \<Rightarrow> string + string"
  envUnicodeToUpper :: "string \<Rightarrow> string"

text \<open>
  The state of a run: the browser, the trace so far, and the clock (the time spent
  so far in calls and sleeps; what the program itself takes between two calls is
  counted with the calls).
\<close>

record 'b World =
  browser :: 'b
  trace :: "(Call \<times> Reply) list"
  clock :: nat

definition errReply :: "string option \<Rightarrow> Reply" where
  "errReply r = (case r of None \<Rightarrow> Done | Some e \<Rightarrow> Failed e)"

definition textReply :: "string + string \<Rightarrow> Reply" where
  "textReply r = (case r of Inl e \<Rightarrow> Failed e | Inr s \<Rightarrow> Text s)"

definition valueReply :: "string + jsval \<Rightarrow> Reply" where
  "valueReply r = (case r of Inl e \<Rightarrow> Failed e | Inr v \<Rightarrow> Returned v)"

definition elementReply :: "string + nat \<Rightarrow> Reply" where
  "elementReply r = (case r of Inl e \<Rightarrow> Failed e | Inr el \<Rightarrow> Element el)"

definition entriesReply :: "string + LogMessage list \<Rightarrow> Reply" where
  "entriesReply r = (case r of Inl e \<Rightarrow> Failed e | Inr es \<Rightarrow> Entries es)"

definition perform ::
  "'b Env \<Rightarrow> Call \<Rightarrow> ('r \<Rightarrow> Reply) \<Rightarrow> ('b \<Rightarrow> 'r \<times> 'b) \<Rightarrow> 'b World \<Rightarrow> 'r \<times> 'b World" where
  "perform env c reply f w =
     (case f (browser w) of
        (r, b) \<Rightarrow>
          (r, \<lparr>browser = b, trace = trace w @ [(c, reply r)],
               clock = clock w + envLatency env c (browser w)\<rparr>))"

definition newGeckoDriverService :: "'b Env \<Rightarrow> 'b World \<Rightarrow> string option \<times> 'b World" where
  "newGeckoDriverService env = perform env NewGeckoDriverService errReply (envNewGeckoDriverService env)"

definition osMkdirAll :: "'b Env \<Rightarrow> string \<Rightarrow> 'b World \<Rightarrow> string option \<times> 'b World" where
  "osMkdirAll env dir = perform env (MkdirAll dir) errReply (envMkdirAll env dir)"

definition newRemote :: "'b Env \<Rightarrow> string \<Rightarrow> 'b World \<Rightarrow> string option \<times> 'b World" where
  "newRemote env profileDir = perform env (NewRemote profileDir) errReply (envNewRemote env profileDir)"

definition wdGet :: "'b Env \<Rightarrow> string \<Rightarrow> 'b World \<Rightarrow> string option \<times> 'b World" where
  "wdGet env url = perform env (Get url) errReply (envGet env url)"

definition wdExecuteScript :: "'b Env \<Rightarrow> string \<Rightarrow> 'b World \<Rightarrow> (string + jsval) \<times> 'b World" where
  "wdExecuteScript env script = perform env (ExecuteScript script) valueReply (envExecuteScript env script)"

definition wdFindElement :: "'b Env \<Rightarrow> string \<Rightarrow> 'b World \<Rightarrow> (string + nat) \<times> 'b World" where
  "wdFindElement env selector = perform env (FindElement selector) elementReply (envFindElement env selector)"

definition elemClear :: "'b Env \<Rightarrow> nat \<Rightarrow> 'b World \<Rightarrow> string option \<times> 'b World" where
  "elemClear env el = perform env (Clear el) errReply (envClear env el)"

definition elemSendKeys :: "'b Env \<Rightarrow> nat \<Rightarrow> string \<Rightarrow> 'b World \<Rightarrow> string option \<times> 'b World" where
  "elemSendKeys env el keys = perform env (SendKeys el keys) errReply (envSendKeys env el keys)"

definition elemClick :: "'b Env \<Rightarrow> nat \<Rightarrow> 'b World \<Rightarrow> string option \<times> 'b World" where
  "elemClick env el = perform env (Click el) errReply (envClick env el)"

definition wdCurrentURL :: "'b Env \<Rightarrow> 'b World \<Rightarrow> (string + string) \<times> 'b World" where
  "wdCurrentURL env = perform env CurrentURL textReply (envCurrentURL env)"

definition wdPageSource :: "'b Env \<Rightarrow> 'b World \<Rightarrow> (string + string) \<times> 'b World" where
  "wdPageSource env = perform env PageSource textReply (envPageSource env)"

definition wdLog :: "'b Env \<Rightarrow> 'b World \<Rightarrow> (string + LogMessage list) \<times> 'b World" where
  "wdLog env = perform env BrowserLog entriesReply (envLog env)"

definition wdScreenshot :: "'b Env \<Rightarrow> 'b World \<Rightarrow> (string + string) \<times> 'b World" where
  "wdScreenshot env = perform env Screenshot textReply (envScreenshot env)"

definition osWriteFile :: "'b Env \<Rightarrow> string \<Rightarrow> string \<Rightarrow> 'b World \<Rightarrow> string option \<times> 'b World" where
  "osWriteFile env path bytes = perform env (WriteFile path bytes) errReply (envWriteFile env path bytes)"

text \<open>\<^verbatim>\<open>time.Sleep(d)\<close> pauses for at least \<open>d\<close>.\<close>

definition timeSleep :: "'b Env \<Rightarrow> nat \<Rightarrow> 'b World \<Rightarrow> 'b World" where
  "timeSleep env d w =
     \<lparr>browser = envSleep env d (browser w), trace = trace w @ [(Sleep d, Done)],
      clock = clock w + d + envLatency env (Sleep d) (browser w)\<rparr>"

text \<open>An entry of the trace that takes no time of its own.\<close>

definition logCall :: "Call \<Rightarrow> 'b World \<Rightarrow> 'b World" where
  "logCall c w = \<lparr>browser = browser w, trace = trace w @ [(c, Done)], clock = clock w\<rparr>"

text \<open>\<^verbatim>\<open>fmt.Println\<close>: the line and a newline on the standard output.\<close>

definition fmtPrintln :: "string \<Rightarrow> 'b World \<Rightarrow> 'b World" where
  "fmtPrintln line = logCall (Print (line @ [NL]))"

subsection \<open>Polling\<close>

text \<open>
  The three conditions the program polls: the closures of lines 696 to 699 (an
  element is found), 704 to 713 (a script returns \<^verbatim>\<open>true\<close>) and 568 to 578 (the
  current URL differs from the one before the action). Each makes one call on the
  driver and decides from its reply; none returns an error.
\<close>

definition selectorCondition ::
  "'b Env \<Rightarrow> string \<Rightarrow> 'b World \<Rightarrow> (bool \<times> string option) \<times> 'b World" where
  "selectorCondition env selector w =
     (case wdFindElement env selector w of
        (Inl e, w1) \<Rightarrow> ((False, None), w1)
      | (Inr el, w1) \<Rightarrow> ((True, None), w1))"

definition functionCondition ::
  "'b Env \<Rightarrow> string \<Rightarrow> 'b World \<Rightarrow> (bool \<times> string option) \<times> 'b World" where
  "functionCondition env jsCode w =
     (case wdExecuteScript env jsCode w of
        (Inl e, w1) \<Rightarrow> ((False, None), w1)
      | (Inr result, w1) \<Rightarrow>
          (case result of
             JBool boolResult \<Rightarrow> ((boolResult, None), w1)
           | _ \<Rightarrow> ((False, None), w1)))"

text \<open>
  The condition of lines 568 to 578 sets \<^verbatim>\<open>navigationOccurred\<close> exactly when it
  returns \<^verbatim>\<open>true\<close>, which is exactly when the wait returns without error.
\<close>

definition urlChangedCondition ::
  "'b Env \<Rightarrow> string \<Rightarrow> 'b World \<Rightarrow> (bool \<times> string option) \<times> 'b World" where
  "urlChangedCondition env currentURL w =
     (case wdCurrentURL env w of
        (Inl e, w1) \<Rightarrow> ((False, None), w1)
      | (Inr newURL, w1) \<Rightarrow> ((newURL \<noteq> currentURL, None), w1))"

datatype Condition =
    ElementFound string
  | ScriptTrue string
  | URLDiffers string

fun evalCondition ::
  "'b Env \<Rightarrow> Condition \<Rightarrow> 'b World \<Rightarrow> (bool \<times> string option) \<times> 'b World" where
  "evalCondition env (ElementFound selector) w = selectorCondition env selector w"
| "evalCondition env (ScriptTrue jsCode) w = functionCondition env jsCode w"
| "evalCondition env (URLDiffers currentURL) w = urlChangedCondition env currentURL w"

text \<open>
  \<^verbatim>\<open>Duration.String()\<close>, which the verb \<^verbatim>\<open>%v\<close> prints: below one second the
  largest of ns, the micro sign and ms that gives a value of at least 1, otherwise
  hours, minutes and seconds; a fraction without its trailing zeros.
  \<open>fmtFracLoop\<close> is the loop of \<^verbatim>\<open>fmtFrac\<close> over the \<open>prec\<close> lowest digits.
\<close>

fun fmtFracLoop :: "nat \<Rightarrow> nat \<Rightarrow> bool \<Rightarrow> string \<Rightarrow> string \<times> bool \<times> nat" where
  "fmtFracLoop 0 v print acc = (acc, print, v)"
| "fmtFracLoop (Suc i) v print acc =
     (if print \<or> v mod 10 \<noteq> 0
      then fmtFracLoop i (v div 10) True (digitChar (v mod 10) # acc)
      else fmtFracLoop i (v div 10) False acc)"

definition fmtFrac :: "nat \<Rightarrow> nat \<Rightarrow> string \<times> nat" where
  "fmtFrac v prec =
     (case fmtFracLoop prec v False [] of
        (acc, print, v') \<Rightarrow> (if print then CHR ''.'' # acc else acc, v'))"

definition durationString :: "nat \<Rightarrow> string" where
  "durationString d =
     (if d < Second then
        (if d = 0 then ''0s''
         else if d < Microsecond then natDigits d @ ''ns''
         else if d < Millisecond then
           (case fmtFrac d 3 of (frac, u) \<Rightarrow> natDigits u @ frac @ [CHR 0xC2, CHR 0xB5] @ ''s'')
         else (case fmtFrac d 6 of (frac, u) \<Rightarrow> natDigits u @ frac @ ''ms''))
      else
        (case fmtFrac d 9 of
           (frac, u) \<Rightarrow>
             (if u div 60 > 0
              then (if u div 60 div 60 > 0 then natDigits (u div 60 div 60) @ ''h'' else [])
                   @ natDigits (u div 60 mod 60) @ ''m''
              else [])
             @ natDigits (u mod 60) @ frac @ ''s''))"

text \<open>
  \<^verbatim>\<open>WaitWithTimeout\<close> of the driver library notes the time, then evaluates the
  condition, returns its error if it has one and \<^verbatim>\<open>nil\<close> if it holds, fails with
  \<^verbatim>\<open>timeout after <elapsed>\<close> once the time since the start exceeds the timeout,
  and otherwise sleeps for the library's interval of 100 ms and starts over. The
  time since the start includes what the evaluations and the sleeps took.
\<close>

definition waitInterval :: nat where
  "waitInterval = 100 * Millisecond"

definition timeoutError :: "nat \<Rightarrow> string" where
  "timeoutError elapsed = ''timeout after '' @ durationString elapsed"

lemma perform_clock: "clock w \<le> clock (snd (perform env c reply f w))"
  by (simp add: perform_def split: prod.splits)

lemma evalCondition_clock: "clock w \<le> clock (snd (evalCondition env c w))"
proof (cases c)
  case (ElementFound selector)
  then show ?thesis
    using perform_clock [of w env "FindElement selector" elementReply "envFindElement env selector"]
    by (auto simp: selectorCondition_def wdFindElement_def split: prod.splits sum.splits)
next
  case (ScriptTrue jsCode)
  then show ?thesis
    using perform_clock [of w env "ExecuteScript jsCode" valueReply "envExecuteScript env jsCode"]
    by (auto simp: functionCondition_def wdExecuteScript_def
        split: prod.splits sum.splits jsval.splits)
next
  case (URLDiffers currentURL)
  then show ?thesis
    using perform_clock [of w env CurrentURL textReply "envCurrentURL env"]
    by (auto simp: urlChangedCondition_def wdCurrentURL_def split: prod.splits sum.splits)
qed

function pollLoop ::
  "'b Env \<Rightarrow> Condition \<Rightarrow> nat \<Rightarrow> nat \<Rightarrow> 'b World \<Rightarrow> string option \<times> 'b World" where
  "pollLoop env condition timeout startTime w =
     (case evalCondition env condition w of
        ((done, err), w1) \<Rightarrow>
          (case err of
             Some e \<Rightarrow> (Some e, w1)
           | None \<Rightarrow>
               if done then (None, w1)
               else if clock w1 - startTime > timeout
               then (Some (timeoutError (clock w1 - startTime)), w1)
               else pollLoop env condition timeout startTime (timeSleep env waitInterval w1)))"
  by pat_completeness auto
termination
proof (relation "measure (\<lambda>(env, condition, timeout, startTime, w).
    startTime + timeout + waitInterval - clock w)")
  fix env :: "'b Env" and condition timeout startTime and w :: "'b World"
    and x w1 fin err
  assume ev: "(x, w1) = evalCondition env condition w"
    and "\<not> timeout < clock w1 - startTime"
  have "clock w \<le> clock w1"
    using evalCondition_clock [of w env condition] ev [symmetric] by simp
  moreover have "clock (timeSleep env waitInterval w1) \<ge> clock w1 + waitInterval"
    by (simp add: timeSleep_def)
  moreover have "0 < waitInterval"
    by (simp add: waitInterval_def Millisecond_def)
  ultimately show "((env, condition, timeout, startTime, timeSleep env waitInterval w1),
      env, condition, timeout, startTime, w)
    \<in> measure (\<lambda>(env, condition, timeout, startTime, w).
        startTime + timeout + waitInterval - clock w)"
    using \<open>\<not> timeout < clock w1 - startTime\<close> by simp
qed simp

definition wdWaitWithTimeout ::
  "'b Env \<Rightarrow> Condition \<Rightarrow> nat \<Rightarrow> 'b World \<Rightarrow> string option \<times> 'b World" where
  "wdWaitWithTimeout env condition timeout w =
     pollLoop env condition timeout (clock w) (logCall (WaitWithTimeout timeout) w)"

text \<open>\<^verbatim>\<open>waitForSelector\<close>, lines 695 to 700.\<close>

definition waitForSelector ::
  "'b Env \<Rightarrow> string \<Rightarrow> nat \<Rightarrow> 'b World \<Rightarrow> string option \<times> 'b World" where
  "waitForSelector env selector timeout =
     wdWaitWithTimeout env (ElementFound selector) timeout"

text \<open>\<^verbatim>\<open>waitForFunction\<close>, lines 703 to 714.\<close>

definition waitForFunction ::
  "'b Env \<Rightarrow> string \<Rightarrow> nat \<Rightarrow> 'b World \<Rightarrow> string option \<times> 'b World" where
  "waitForFunction env jsCode timeout =
     wdWaitWithTimeout env (ScriptTrue jsCode) timeout"

section \<open>Form handling\<close>

text \<open>
  The scripts the program runs in the page. The environment decides what a script
  returns, so only the identity of a script matters; the two scripts that span
  several source lines are written on one line.
\<close>

definition consoleCaptureScript :: string where
  "consoleCaptureScript =
     ''if (!window.__consoleMessages) { window.__consoleMessages = []; /* wrap log, warn, error, info, debug */ }''"

definition liveViewProbeScript :: string where
  "liveViewProbeScript = ''return document.querySelector('[data-phx-session]') !== null''"

definition navigationListenersScript :: string where
  "navigationListenersScript =
     ''if (!window.__phxNavigationState) { window.__phxNavigationState = { loading: false }; /* phx:page-loading-start, phx:page-loading-stop */ }''"

definition loadingStartedScript :: string where
  "loadingStartedScript =
     ''return window.__phxNavigationState && window.__phxNavigationState.loading === true''"

definition loadingStoppedScript :: string where
  "loadingStoppedScript =
     ''return window.__phxNavigationState && window.__phxNavigationState.loading === false''"

definition readyStateScript :: string where
  "readyStateScript =
     ''return document.readyState === '' @ [CHR 0x27] @ ''complete'' @ [CHR 0x27]"

definition capturedLogsScript :: string where
  "capturedLogsScript = ''return window.__consoleMessages || []''"

text \<open>\<^verbatim>\<open>selenium.EnterKey\<close> is U+E007, three bytes in UTF-8.\<close>

definition EnterKey :: string where
  "EnterKey = [CHR 0xEE, CHR 0x80, CHR 0x87]"

definition fmtPrintf :: "string \<Rightarrow> 'b World \<Rightarrow> 'b World" where
  "fmtPrintf text = logCall (Print text)"

definition inputSelector :: "string \<Rightarrow> string \<Rightarrow> string" where
  "inputSelector formID name =
     ''#'' @ formID @ '' input[name='' @ [CHR 0x27] @ name @ [CHR 0x27] @ '']''"

definition formSelector :: "string \<Rightarrow> string" where
  "formSelector formID = ''#'' @ formID"

definition submitSelector :: "string \<Rightarrow> string" where
  "submitSelector formID =
     ''#'' @ formID @ '' input[type='submit'], #'' @ formID @ '' button[type='submit']''"

text \<open>The body of the loop over the inputs, lines 719 to 729.\<close>

definition fillInput :: "'b Env \<Rightarrow> string \<Rightarrow> FormInput \<Rightarrow> 'b World \<Rightarrow> string option \<times> 'b World" where
  "fillInput env formID input w =
     (case wdFindElement env (inputSelector formID (Name input)) w of
        (Inl e, w1) \<Rightarrow> (Some (''could not find input '' @ Name input @ '': '' @ e), w1)
      | (Inr elem, w1) \<Rightarrow>
          (case elemClear env elem w1 of
             (Some e, w2) \<Rightarrow> (Some (''could not clear input '' @ Name input @ '': '' @ e), w2)
           | (None, w2) \<Rightarrow>
               (case elemSendKeys env elem (Value input) w2 of
                  (Some e, w3) \<Rightarrow> (Some (''could not fill input '' @ Name input @ '': '' @ e), w3)
                | (None, w3) \<Rightarrow> (None, w3))))"

text \<open>The loop itself, lines 718 to 730: the first error ends it.\<close>

fun fillInputs :: "'b Env \<Rightarrow> string \<Rightarrow> FormInput list \<Rightarrow> 'b World \<Rightarrow> string option \<times> 'b World" where
  "fillInputs env formID [] w = (None, w)"
| "fillInputs env formID (input # rest) w =
     (case fillInput env formID input w of
        (Some e, w1) \<Rightarrow> (Some e, w1)
      | (None, w1) \<Rightarrow> fillInputs env formID rest w1)"

text \<open>The branch for a LiveView page, lines 733 to 762.\<close>

definition submitLiveView :: "'b Env \<Rightarrow> Config \<Rightarrow> 'b World \<Rightarrow> string option \<times> 'b World" where
  "submitLiveView env config w =
     (case wdFindElement env (formSelector (FormID config)) w of
        (Inl e, w1) \<Rightarrow> (Some (''could not find LiveView form: '' @ e), w1)
      | (Inr formElem, w1) \<Rightarrow>
          (case elemSendKeys env formElem EnterKey w1 of
             (Some e, w2) \<Rightarrow> (Some (''could not submit LiveView form: '' @ e), w2)
           | (None, w2) \<Rightarrow>
               (case waitForFunction env loadingStartedScript (2 * Second)
                       (fmtPrintln ''Waiting for Phoenix LiveView navigation...'' w2) of
                  (Some e, w3) \<Rightarrow>
                    (None,
                     fmtPrintln ''LiveView form submitted''
                       (fmtPrintf
                          (''Info: No navigation detected (this is normal for in-place updates)''
                             @ [NL]) w3))
                | (None, w3) \<Rightarrow>
                    (case waitForFunction env loadingStoppedScript (10 * Second) w3 of
                       (Some e, w4) \<Rightarrow>
                         (None,
                          fmtPrintln ''LiveView form submitted''
                            (fmtPrintf
                               (''Warning: Navigation did not complete within timeout: '' @ e
                                  @ [NL]) w4))
                     | (None, w4) \<Rightarrow>
                         (None,
                          fmtPrintln ''LiveView form submitted''
                            (fmtPrintln ''Phoenix LiveView navigation completed'' w4))))))"

text \<open>The branch for any other page, lines 764 to 782.\<close>

definition submitStatic :: "'b Env \<Rightarrow> Config \<Rightarrow> 'b World \<Rightarrow> string option \<times> 'b World" where
  "submitStatic env config w =
     (case wdFindElement env (submitSelector (FormID config)) w of
        (Inl e, w1) \<Rightarrow>
          (case wdFindElement env (formSelector (FormID config)) w1 of
             (Inl e', w2) \<Rightarrow> (Some (''could not submit form: '' @ e'), w2)
           | (Inr formElem, w2) \<Rightarrow>
               (case elemSendKeys env formElem EnterKey w2 of
                  (Some e', w3) \<Rightarrow> (Some (''could not submit form: '' @ e'), w3)
                | (None, w3) \<Rightarrow> (None, fmtPrintln ''Form submitted'' w3)))
      | (Inr elem, w1) \<Rightarrow>
          (case elemClick env elem w1 of
             (Some e, w2) \<Rightarrow> (Some (''could not click submit button: '' @ e), w2)
           | (None, w2) \<Rightarrow> (None, fmtPrintln ''Form submitted'' w2)))"

text \<open>\<^verbatim>\<open>handleForm\<close>, lines 716 to 786.\<close>

definition handleForm :: "'b Env \<Rightarrow> Config \<Rightarrow> bool \<Rightarrow> 'b World \<Rightarrow> string option \<times> 'b World" where
  "handleForm env config isLiveView w =
     (case fillInputs env (FormID config) (Inputs config) w of
        (Some e, w1) \<Rightarrow> (Some e, w1)
      | (None, w1) \<Rightarrow>
          if isLiveView then submitLiveView env config w1 else submitStatic env config w1)"

section \<open>The request\<close>

text \<open>
  \<^verbatim>\<open>processRequest\<close> (lines 402 to 692) is one long function; the model cuts it where
  the source's comments do. A failure is an error the function returns or a Go
  panic.
\<close>

datatype Failure = Error string | Panic string

text \<open>Lines 452 to 478.\<close>

definition injectConsoleCapture :: "'b Env \<Rightarrow> 'b World \<Rightarrow> 'b World" where
  "injectConsoleCapture env w =
     (case wdExecuteScript env consoleCaptureScript w of
        (Inl e, w1) \<Rightarrow> fmtPrintf (''Warning: Could not inject console capture: '' @ e @ [NL]) w1
      | (Inr v, w1) \<Rightarrow> w1)"

text \<open>
  Lines 480 to 486. An error of the probe counts as \<^verbatim>\<open>false\<close>; the type assertion
  \<^verbatim>\<open>isLiveView.(bool)\<close> panics on any other value that is not a boolean.
\<close>

definition detectLiveView :: "'b Env \<Rightarrow> 'b World \<Rightarrow> (Failure + bool) \<times> 'b World" where
  "detectLiveView env w =
     (case wdExecuteScript env liveViewProbeScript w of
        (Inl e, w1) \<Rightarrow> (Inr False, w1)
      | (Inr v, w1) \<Rightarrow>
          (case v of
             JBool b \<Rightarrow> (Inr b, w1)
           | _ \<Rightarrow> (Inl (Panic ''interface conversion: interface {} is not bool''), w1)))"

text \<open>Lines 487 to 510, for a LiveView page.\<close>

definition connectLiveView :: "'b Env \<Rightarrow> 'b World \<Rightarrow> 'b World" where
  "connectLiveView env w =
     (case waitForSelector env ''.phx-connected'' (10 * Second)
             (fmtPrintln ''Detected Phoenix LiveView page, waiting for connection...'' w) of
        (err, w1) \<Rightarrow>
          (case wdExecuteScript env navigationListenersScript
                  (case err of
                     Some e \<Rightarrow>
                       fmtPrintf (''Warning: Could not detect LiveView connection: '' @ e @ [NL]) w1
                   | None \<Rightarrow> fmtPrintln ''Phoenix LiveView connected'' w1) of
             (Inl e, w2) \<Rightarrow>
               fmtPrintf (''Warning: Could not inject Phoenix navigation listeners: '' @ e @ [NL]) w2
           | (Inr v, w2) \<Rightarrow> w2))"

text \<open>
  \<^verbatim>\<open>wd.CurrentURL()\<close> with its error dropped (\<^verbatim>\<open>url, _ := wd.CurrentURL()\<close>): the
  library returns the empty string with an error.
\<close>

definition currentURLOrEmpty :: "'b Env \<Rightarrow> 'b World \<Rightarrow> string \<times> 'b World" where
  "currentURLOrEmpty env w =
     (case wdCurrentURL env w of
        (Inl e, w1) \<Rightarrow> ([], w1)
      | (Inr url, w1) \<Rightarrow> (url, w1))"

text \<open>The wait after the script on a LiveView page, lines 533 to 558.\<close>

definition liveViewScriptWait :: "'b Env \<Rightarrow> string \<Rightarrow> 'b World \<Rightarrow> 'b World" where
  "liveViewScriptWait env currentURL w =
     (case waitForFunction env loadingStartedScript (1 * Second)
             (timeSleep env (100 * Millisecond) (fmtPrintln ''Waiting for Phoenix LiveView navigation...'' w)) of
        (Some e, w1) \<Rightarrow>
          (case currentURLOrEmpty env w1 of
             (newURL, w2) \<Rightarrow>
               if newURL \<noteq> currentURL
               then timeSleep env (500 * Millisecond)
                      (fmtPrintln ''URL changed, waiting for page to stabilize...'' w2)
               else fmtPrintln ''Info: No navigation detected (in-place LiveView update)'' w2)
      | (None, w1) \<Rightarrow>
          (case waitForFunction env loadingStoppedScript (10 * Second) w1 of
             (Some e, w2) \<Rightarrow>
               fmtPrintf (''Warning: Navigation did not complete within timeout: '' @ e @ [NL]) w2
           | (None, w2) \<Rightarrow> fmtPrintln ''Phoenix LiveView navigation completed'' w2))"

text \<open>The wait after the script on any other page, lines 560 to 591.\<close>

definition staticScriptWait :: "'b Env \<Rightarrow> string \<Rightarrow> 'b World \<Rightarrow> 'b World" where
  "staticScriptWait env currentURL w =
     (case wdWaitWithTimeout env (URLDiffers currentURL) (5 * Second)
             (timeSleep env (200 * Millisecond) (fmtPrintln ''Waiting for page navigation...'' w)) of
        (None, w1) \<Rightarrow>
          (case waitForFunction env readyStateScript (5 * Second)
                  (fmtPrintln ''Navigation detected, waiting for page load...'' w1) of
             (Some e, w2) \<Rightarrow> fmtPrintf (''Warning: Page load wait timed out: '' @ e @ [NL]) w2
           | (None, w2) \<Rightarrow> fmtPrintln ''Page load completed'' w2)
      | (Some e, w1) \<Rightarrow>
          fmtPrintln ''Info: No navigation detected (page update without URL change)'' w1)"

text \<open>Lines 521 to 593.\<close>

definition runScript :: "'b Env \<Rightarrow> Config \<Rightarrow> bool \<Rightarrow> 'b World \<Rightarrow> 'b World" where
  "runScript env config isLiveView w =
     (if JSCode config \<noteq> [] then
        (case currentURLOrEmpty env w of
           (currentURL, w1) \<Rightarrow>
             (case wdExecuteScript env (JSCode config) w1 of
                (r, w2) \<Rightarrow>
                  (if isLiveView then liveViewScriptWait env currentURL
                   else staticScriptWait env currentURL)
                    (case r of
                       Inl e \<Rightarrow> fmtPrintf (''Warning: JavaScript execution failed: '' @ e @ [NL]) w2
                     | Inr v \<Rightarrow> w2)))
      else w)"

text \<open>Lines 595 to 606.\<close>

definition takeScreenshot :: "'b Env \<Rightarrow> Config \<Rightarrow> 'b World \<Rightarrow> string option \<times> 'b World" where
  "takeScreenshot env config w =
     (if ScreenshotPath config \<noteq> [] then
        (case wdScreenshot env w of
           (Inl e, w1) \<Rightarrow> (Some (''error taking screenshot: '' @ e), w1)
         | (Inr screenshot, w1) \<Rightarrow>
             (case osWriteFile env (ScreenshotPath config) screenshot w1 of
                (Some e, w2) \<Rightarrow> (Some (''error saving screenshot: '' @ e), w2)
              | (None, w2) \<Rightarrow>
                  (None, fmtPrintf (''Screenshot saved to '' @ ScreenshotPath config @ [NL]) w2)))
      else (None, w))"

text \<open>Lines 608 to 614.\<close>

definition afterSubmit :: "'b Env \<Rightarrow> Config \<Rightarrow> 'b World \<Rightarrow> string option \<times> 'b World" where
  "afterSubmit env config w =
     (if AfterSubmitURL config \<noteq> [] then
        (case wdGet env (AfterSubmitURL config)
                (fmtPrintf (''Navigating to after-submit URL: '' @ AfterSubmitURL config @ [NL]) w) of
           (Some e, w1) \<Rightarrow> (Some (''could not navigate to after-submit URL: '' @ e), w1)
         | (None, w1) \<Rightarrow> (None, w1))
      else (None, w))"

subsection \<open>Console messages\<close>

text \<open>
  \<^verbatim>\<open>strings.ToUpper\<close>: on an ASCII string, the letters a to z become A to Z; any
  other string goes through the Unicode upper-case mapping.
\<close>

definition asciiUpper :: "char \<Rightarrow> char" where
  "asciiUpper c =
     (if 97 \<le> (of_char c :: nat) \<and> (of_char c :: nat) \<le> 122
      then char_of ((of_char c :: nat) - 32) else c)"

definition ToUpper :: "'b Env \<Rightarrow> string \<Rightarrow> string" where
  "ToUpper env s =
     (if list_all (\<lambda>c. (of_char c :: nat) < 128) s then map asciiUpper s
      else envUnicodeToUpper env s)"

definition logLine :: "string \<Rightarrow> string \<Rightarrow> string" where
  "logLine level message = ''['' @ level @ ''] '' @ message"

text \<open>
  One entry of the captured list, lines 630 to 644: an entry that is not an object
  is skipped (\<open>None\<close>). The object is the decoded Go map, as an association list.
\<close>

definition capturedLine :: "'b Env \<Rightarrow> jsval \<Rightarrow> string option" where
  "capturedLine env logEntry =
     (case logEntry of
        JObj logMap \<Rightarrow>
          Some (logLine
            (case map_of logMap ''level'' of
               Some (JStr lvl) \<Rightarrow>
                 if ToUpper env lvl = ''WARN'' then ''WARNING'' else ToUpper env lvl
             | _ \<Rightarrow> ''LOG'')
            (case map_of logMap ''message'' of
               Some (JStr msg) \<Rightarrow> msg
             | _ \<Rightarrow> []))
      | _ \<Rightarrow> None)"

text \<open>One entry of the browser's own log, lines 653 to 657.\<close>

definition browserLine :: "'b Env \<Rightarrow> LogMessage \<Rightarrow> string option" where
  "browserLine env logEntry =
     (if ToUpper env (Level logEntry) = ''WARNING'' \<or> ToUpper env (Level logEntry) = ''WARN''
         \<or> ToUpper env (Level logEntry) = ''ERROR'' \<or> ToUpper env (Level logEntry) = ''SEVERE''
      then Some (logLine (ToUpper env (Level logEntry)) (Message logEntry))
      else None)"

text \<open>Lines 622 to 659: the messages in the order they are appended.\<close>

definition collectLogs :: "'b Env \<Rightarrow> 'b World \<Rightarrow> string list \<times> 'b World" where
  "collectLogs env w =
     (case wdExecuteScript env capturedLogsScript w of
        (capturedLogs, w1) \<Rightarrow>
          (case wdLog env w1 of
             (browserLogs, w2) \<Rightarrow>
               ((case capturedLogs of
                   Inr (JArr logArray) \<Rightarrow> List.map_filter (capturedLine env) logArray
                 | _ \<Rightarrow> [])
                @ (case browserLogs of
                     Inr entries \<Rightarrow> List.map_filter (browserLine env) entries
                   | Inl e \<Rightarrow> []),
                w2)))"

subsection \<open>Output\<close>

text \<open>
  Lines 675 to 678. The slice \<^verbatim>\<open>markdown[:config.TruncateAfter]\<close> panics for a
  negative bound (the upper bound holds by the test before it).
\<close>

definition truncationNotice :: "int \<Rightarrow> int \<Rightarrow> string" where
  "truncationNotice budget full =
     [NL, NL] @ ''... (output truncated after '' @ fmtD budget
       @ '' chars, full content was '' @ fmtD full @ '' chars)''"

definition truncateMarkdown :: "Config \<Rightarrow> string \<Rightarrow> string \<Rightarrow> Failure + string" where
  "truncateMarkdown config text markdown =
     (if int (length markdown) > TruncateAfter config then
        (if TruncateAfter config < 0 then Inl (Panic ''slice bounds out of range'')
         else Inr (take (nat (TruncateAfter config)) markdown
                   @ truncationNotice (TruncateAfter config) (int (length text))))
      else Inr markdown)"

definition headerBlock :: "string \<Rightarrow> string" where
  "headerBlock baseURL =
     replicate 26 (CHR ''='') @ [NL] @ baseURL @ [NL] @ replicate 26 (CHR ''='') @ [NL, NL]"

definition consoleSection :: "string list \<Rightarrow> string" where
  "consoleSection consoleMessages =
     foldl (\<lambda>result msg. result @ msg @ [NL])
       ([NL, NL] @ replicate 50 (CHR ''='') @ [NL] @ ''CONSOLE OUTPUT:'' @ [NL]
          @ replicate 50 (CHR ''='') @ [NL])
       consoleMessages"

text \<open>Lines 661 to 691.\<close>

definition composeOutput ::
  "'b Env \<Rightarrow> Config \<Rightarrow> string \<Rightarrow> string \<Rightarrow> string list \<Rightarrow> Failure + string" where
  "composeOutput env config baseURL content consoleMessages =
     (if RawFlag config then Inr content
      else
        (case envHtml2text env content of
           Inl e \<Rightarrow> Inl (Error (''could not convert HTML to text: '' @ e))
         | Inr text \<Rightarrow>
             (case truncateMarkdown config text (cleanMarkdown text) of
                Inl failure \<Rightarrow> Inl failure
              | Inr markdown \<Rightarrow>
                  Inr (headerBlock baseURL @ markdown
                       @ (if length consoleMessages > 0 then consoleSection consoleMessages
                          else [])))))"

subsection \<open>The whole run\<close>

text \<open>Lines 447 to 691: what happens between the creation of the session and its end.\<close>

definition session ::
  "'b Env \<Rightarrow> Config \<Rightarrow> string \<Rightarrow> 'b World \<Rightarrow> (Failure + string) \<times> 'b World" where
  "session env config baseURL w =
     (case wdGet env baseURL w of
        (Some e, w1) \<Rightarrow> (Inl (Error (''could not navigate to '' @ baseURL @ '': '' @ e)), w1)
      | (None, w1) \<Rightarrow>
          (case detectLiveView env (injectConsoleCapture env w1) of
             (Inl failure, w2) \<Rightarrow> (Inl failure, w2)
           | (Inr isLiveView, w2) \<Rightarrow>
               (case (if FormID config \<noteq> [] \<and> length (Inputs config) > 0
                      then handleForm env config isLiveView
                             (if isLiveView then connectLiveView env w2 else w2)
                      else (None, if isLiveView then connectLiveView env w2 else w2)) of
                  (Some e, w3) \<Rightarrow> (Inl (Error (''error handling form: '' @ e)), w3)
                | (None, w3) \<Rightarrow>
                    (case takeScreenshot env config (runScript env config isLiveView w3) of
                       (Some e, w4) \<Rightarrow> (Inl (Error e), w4)
                     | (None, w4) \<Rightarrow>
                         (case afterSubmit env config w4 of
                            (Some e, w5) \<Rightarrow> (Inl (Error e), w5)
                          | (None, w5) \<Rightarrow>
                              (case wdPageSource env w5 of
                                 (Inl e, w6) \<Rightarrow>
                                   (Inl (Error (''could not get page content: '' @ e)), w6)
                               | (Inr content, w6) \<Rightarrow>
                                   (case collectLogs env w6 of
                                      (consoleMessages, w7) \<Rightarrow>
                                        (composeOutput env config baseURL content consoleMessages,
                                         w7))))))))"

text \<open>
  \<^verbatim>\<open>processRequest\<close>, lines 402 to 692. The two deferred calls run on every way out
  once they are registered. The paths of the browser and driver binaries (lines
  406 and 407) only feed the environment's service and session creation.
\<close>

definition processRequest ::
  "'b Env \<Rightarrow> Config \<Rightarrow> 'b World \<Rightarrow> (Failure + string) \<times> 'b World" where
  "processRequest env config w =
     (case envUserHomeDir env of
        Inl e \<Rightarrow> (Inl (Error (''could not get home directory: '' @ e)), w)
      | Inr homeDir \<Rightarrow>
          (case newGeckoDriverService env w of
             (Some e, w1) \<Rightarrow> (Inl (Error (''could not start geckodriver service: '' @ e)), w1)
           | (None, w1) \<Rightarrow>
               (case newRemote env
                       (envFilepathJoin env [homeDir, ''.web-firefox'', ''profiles'', Profile config])
                       (snd (osMkdirAll env
                          (envFilepathJoin env
                             [homeDir, ''.web-firefox'', ''profiles'', Profile config]) w1)) of
                  (Some e, w2) \<Rightarrow>
                    (Inl (Error (''could not create webdriver: '' @ e)), logCall ServiceStop w2)
                | (None, w2) \<Rightarrow>
                    (case session env config (ensureProtocol (URL config)) w2 of
                       (result, w3) \<Rightarrow> (result, logCall ServiceStop (logCall Quit w3))))))"

section \<open>An example site\<close>

text \<open>
  A small browser for running the model on concrete inputs. Its state is the time
  slept so far; a site says whether it is a LiveView page, when its loading flag is
  up, which selectors find an element, which elements refuse to be cleared or
  typed into, and what its source, its text, its captured console list and its
  browser log are. The script \<^verbatim>\<open>throw 1\<close> fails. Every call on the driver or the
  operating system takes the time the site says, and a sleep takes what was asked
  for.
\<close>

record Site =
  siteLiveView :: bool
  siteLoading :: "nat \<Rightarrow> bool"
  siteElements :: "string list"
  siteNoClear :: "nat list"
  siteNoKeys :: "nat list"
  siteURL :: "nat \<Rightarrow> string"
  siteSource :: string
  siteText :: string
  siteCaptured :: jsval
  siteBrowserLog :: "LogMessage list"
  siteLatency :: nat

definition siteEnv :: "Site \<Rightarrow> nat Env" where
  "siteEnv site =
     \<lparr>envUserHomeDir = Inr ''/home/user'',
      envFilepathJoin = (\<lambda>parts. Join parts ''/''),
      envNewGeckoDriverService = (\<lambda>b. (None, b)),
      envMkdirAll = (\<lambda>dir b. (None, b)),
      envNewRemote = (\<lambda>dir b. (None, b)),
      envGet = (\<lambda>url b. (None, b)),
      envExecuteScript = (\<lambda>js b.
         (if js = liveViewProbeScript then Inr (JBool (siteLiveView site))
          else if js = loadingStartedScript then Inr (JBool (siteLoading site b))
          else if js = loadingStoppedScript then Inr (JBool (\<not> siteLoading site b))
          else if js = capturedLogsScript then Inr (siteCaptured site)
          else if js = ''throw 1'' then Inl ''javascript error: 1''
          else Inr JNull, b)),
      envFindElement = (\<lambda>selector b.
         (if selector \<in> set (siteElements site)
          then Inr (length (takeWhile (\<lambda>s. s \<noteq> selector) (siteElements site)))
          else Inl ''no such element'', b)),
      envClear = (\<lambda>el b.
         (if el \<in> set (siteNoClear site) then Some ''invalid element state'' else None, b)),
      envSendKeys = (\<lambda>el keys b.
         (if el \<in> set (siteNoKeys site) then Some ''element not interactable'' else None, b)),
      envClick = (\<lambda>el b. (None, b)),
      envCurrentURL = (\<lambda>b. (Inr (siteURL site b), b)),
      envPageSource = (\<lambda>b. (Inr (siteSource site), b)),
      envLog = (\<lambda>b. (Inr (siteBrowserLog site), b)),
      envScreenshot = (\<lambda>b. (Inr ''PNG'', b)),
      envWriteFile = (\<lambda>path bytes b. (None, b)),
      envSleep = (\<lambda>d b. b + d),
      envLatency = (\<lambda>c b. case c of Sleep d \<Rightarrow> 0 | _ \<Rightarrow> siteLatency site),
      envHtml2text = (\<lambda>html. Inr (siteText site)),
      envUnicodeToUpper = (\<lambda>s. s)\<rparr>"

definition plainSite :: Site where
  "plainSite =
     \<lparr>siteLiveView = False, siteLoading = (\<lambda>t. False), siteElements = [],
      siteNoClear = [], siteNoKeys = [],
      siteURL = (\<lambda>t. ''http://example.com/''),
      siteSource = ''<ul><li>- foo bar</li></ul>'', siteText = ''* - foo bar'',
      siteCaptured = JArr [], siteBrowserLog = [], siteLatency = 1 * Millisecond\<rparr>"

definition start :: "nat World" where
  "start = \<lparr>browser = 0, trace = [], clock = 0\<rparr>"

definition formSite :: Site where
  "formSite = plainSite\<lparr>siteElements := [inputSelector ''f'' ''a'', formSelector ''f'']\<rparr>"

definition lockedSite :: Site where
  "lockedSite =
     plainSite\<lparr>siteElements := [inputSelector ''f'' ''a'', inputSelector ''f'' ''b'',
                                   inputSelector ''f'' ''c'', formSelector ''f''],
       siteNoClear := [1]\<rparr>"

definition frozenSite :: Site where
  "frozenSite =
     plainSite\<lparr>siteElements := [inputSelector ''f'' ''a'', inputSelector ''f'' ''b'',
                                   inputSelector ''f'' ''c'', formSelector ''f''],
       siteNoKeys := [1]\<rparr>"

definition formConfig :: Config where
  "formConfig =
     defaultConfig\<lparr>URL := ''example.com'', FormID := ''f'',
       Inputs := [\<lparr>Name = ''a'', Value = ''1''\<rparr>, \<lparr>Name = ''b'', Value = ''2''\<rparr>,
                  \<lparr>Name = ''c'', Value = ''3''\<rparr>]\<rparr>"

definition rawConfig :: Config where
  "rawConfig = defaultConfig\<lparr>URL := ''example.com'', RawFlag := True\<rparr>"

definition plainConfig :: Config where
  "plainConfig = defaultConfig\<lparr>URL := ''example.com''\<rparr>"

definition noFieldsConfig :: Config where
  "noFieldsConfig = defaultConfig\<lparr>URL := ''example.com'', FormID := ''f''\<rparr>"

definition logSite :: Site where
  "logSite =
     plainSite\<lparr>siteCaptured := JArr [JObj [(''level'', JStr ''warn''), (''message'', JStr ''a'')]],
       siteBrowserLog := [\<lparr>Level = ''INFO'', Message = ''x''\<rparr>,
                          \<lparr>Level = ''WARN'', Message = ''z''\<rparr>,
                          \<lparr>Level = ''SEVERE'', Message = ''y''\<rparr>]\<rparr>"





definition truncatingConfig :: Config where
  "truncatingConfig = defaultConfig\<lparr>URL := ''example.com'', TruncateAfter := 5\<rparr>"

section \<open>Properties\<close>

subsection \<open>Command line\<close>

definition budgetOK :: "string set \<Rightarrow> Config \<Rightarrow> bool" where
  "budgetOK S c =
     (0 < TruncateAfter c \<and>
      (TruncateAfter c = DEFAULT_TRUNCATE_AFTER \<or> (\<exists>v\<in>S. Atoi v = Some (TruncateAfter c))))"

lemma parseStep_budgetOK:
  "parseStep config arg rest = Inr (config', rest') \<Longrightarrow> budgetOK S config \<Longrightarrow>
   set rest \<subseteq> S \<Longrightarrow> budgetOK S config' \<and> set rest' \<subseteq> S"
  unfolding parseStep_def budgetOK_def
  by (simp split: if_splits list.splits option.splits) auto

lemma parseLoop_budgetOK:
  "parseLoop config args = Inr c \<Longrightarrow> budgetOK S config \<Longrightarrow> set args \<subseteq> S \<Longrightarrow> budgetOK S c"
proof (induction config args rule: parseLoop.induct)
  case (1 config)
  then show ?case by simp
next
  case (2 config arg rest)
  from "2.prems"(1) obtain config' rest' where
    step: "parseStep config arg rest = Inr (config', rest')" and
    loop: "parseLoop config' rest' = Inr c"
    by (auto split: sum.splits)
  from "2.prems" have "set rest \<subseteq> S" by simp
  with step "2.prems"(2) have "budgetOK S config'" and "set rest' \<subseteq> S"
    using parseStep_budgetOK by blast+
  with "2.IH" [OF step refl loop] show ?case by simp
qed

lemma parseStep_invalid:
  "\<forall>n. Atoi v = Some n \<longrightarrow> n \<le> 0 \<Longrightarrow>
   parseStep config ''--truncate-after'' (v # rest) = Inr (config, rest)"
  unfolding parseStep_def by (auto split: option.splits)

text \<open>
  C9. Whatever the arguments, a configuration that \<^verbatim>\<open>parseArgs\<close> returns has a
  strictly positive truncation budget: it is the default 100000 or a positive
  number given among the arguments. A \<^verbatim>\<open>--truncate-after\<close> value that is not a
  number, or is not greater than zero, is skipped without any effect: parsing goes
  on with the configuration unchanged, so a default still in place is kept.
\<close>

theorem parseArgs_budget_positive:
  "(parseArgs args = Inr config \<longrightarrow>
      0 < TruncateAfter config \<and>
      (TruncateAfter config = 100000 \<or> (\<exists>v\<in>set args. Atoi v = Some (TruncateAfter config)))) \<and>
   ((\<forall>n. Atoi v = Some n \<longrightarrow> n \<le> 0) \<longrightarrow>
      parseLoop cfg (''--truncate-after'' # v # rest) = parseLoop cfg rest \<and>
      parseArgs (''--truncate-after'' # v # rest) = parseArgs rest)"
proof -
  have "budgetOK (set args) defaultConfig"
    by (simp add: budgetOK_def defaultConfig_def DEFAULT_TRUNCATE_AFTER_def)
  then have "parseArgs args = Inr config \<Longrightarrow> budgetOK (set args) config"
    unfolding parseArgs_def using parseLoop_budgetOK by blast
  moreover have "\<forall>n. Atoi v = Some n \<longrightarrow> n \<le> 0 \<Longrightarrow>
      parseLoop c (''--truncate-after'' # v # rest) = parseLoop c rest" for c
    by (simp add: parseStep_invalid)
  ultimately show ?thesis
    by (auto simp: budgetOK_def DEFAULT_TRUNCATE_AFTER_def parseArgs_def)
qed

theorem parseArgs_budget_positive_witness:
  "parseArgs [''example.com'', ''--truncate-after'', ''-5'', ''--truncate-after'', ''7'']
     = Inr (defaultConfig\<lparr>URL := ''example.com'', TruncateAfter := 7\<rparr>) \<and>
   0 < TruncateAfter (defaultConfig\<lparr>URL := ''example.com'', TruncateAfter := 7\<rparr>) \<and>
   Atoi ''abc'' = None \<and>
   parseArgs [''--truncate-after'', ''abc'', ''example.com''] = parseArgs [''example.com''] \<and>
   parseArgs [''example.com''] = Inr (defaultConfig\<lparr>URL := ''example.com''\<rparr>) \<and>
   TruncateAfter (defaultConfig\<lparr>URL := ''example.com''\<rparr>) = 100000"
proof -
  have run: "parseArgs [''example.com'', ''--truncate-after'', ''-5'', ''--truncate-after'', ''7'']
     = Inr (defaultConfig\<lparr>URL := ''example.com'', TruncateAfter := 7\<rparr>)"
    by code_simp
  have bad: "Atoi ''abc'' = None"
    by code_simp
  have plain: "parseArgs [''example.com''] = Inr (defaultConfig\<lparr>URL := ''example.com''\<rparr>)"
    by code_simp
  have dflt: "TruncateAfter (defaultConfig\<lparr>URL := ''example.com''\<rparr>) = 100000"
    by (simp add: defaultConfig_def DEFAULT_TRUNCATE_AFTER_def)
  from parseArgs_budget_positive
    [of "[''example.com'', ''--truncate-after'', ''-5'', ''--truncate-after'', ''7'']"
        "defaultConfig\<lparr>URL := ''example.com'', TruncateAfter := 7\<rparr>"
        "''abc''" defaultConfig "[''example.com'']"]
  show ?thesis
    using run bad plain dflt by simp
qed

subsection \<open>Traces\<close>

text \<open>A run only appends to the trace; \<open>appends P w w'\<close> says that every call added from \<open>w\<close> to \<open>w'\<close> satisfies \<open>P\<close>.\<close>

definition appends :: "(Call \<Rightarrow> bool) \<Rightarrow> 'b World \<Rightarrow> 'b World \<Rightarrow> bool" where
  "appends P w w' = (\<exists>evs. trace w' = trace w @ evs \<and> (\<forall>ev\<in>set evs. P (fst ev)))"

lemma appends_refl [simp]: "appends P w w"
  by (simp add: appends_def)

lemma appends_trans: "appends P w w1 \<Longrightarrow> appends P w1 w2 \<Longrightarrow> appends P w w2"
  by (auto simp: appends_def)

lemma appends_mono: "appends P w w' \<Longrightarrow> (\<And>c. P c \<Longrightarrow> Q c) \<Longrightarrow> appends Q w w'"
  by (auto simp: appends_def)

lemma perform_trace:
  "perform env c reply f w = (r, w') \<Longrightarrow> trace w' = trace w @ [(c, reply r)]"
  by (auto simp: perform_def split: prod.splits)

lemma perform_appends: "perform env c reply f w = (r, w') \<Longrightarrow> P c \<Longrightarrow> appends P w w'"
  by (auto simp: appends_def dest: perform_trace)

lemma logCall_appends: "P c \<Longrightarrow> appends P w (logCall c w)"
  by (simp add: appends_def logCall_def)

lemma fmtPrintln_appends: "P (Print (line @ [NL])) \<Longrightarrow> appends P w1 w \<Longrightarrow> appends P w1 (fmtPrintln line w)"
  by (auto simp: appends_def logCall_def fmtPrintln_def)

lemma fmtPrintf_appends: "P (Print text) \<Longrightarrow> appends P w1 w \<Longrightarrow> appends P w1 (fmtPrintf text w)"
  by (auto simp: appends_def logCall_def fmtPrintf_def)

lemma timeSleep_appends: "P (Sleep d) \<Longrightarrow> appends P w1 w \<Longrightarrow> appends P w1 (timeSleep env d w)"
  by (auto simp: appends_def timeSleep_def)

lemma pollLoop_appends:
  "pollLoop env condition timeout startTime w = (r, w') \<Longrightarrow>
   (\<And>w r w'. evalCondition env condition w = (r, w') \<Longrightarrow> appends P w w') \<Longrightarrow>
   P (Sleep waitInterval) \<Longrightarrow> appends P w w'"
proof (induction env condition timeout startTime w rule: pollLoop.induct)
  case (1 env condition timeout startTime w)
  obtain fin err w1 where c: "evalCondition env condition w = ((fin, err), w1)"
    by (metis prod.exhaust)
  then have a1: "appends P w w1"
    using "1.prems"(2) by blast
  show ?case
  proof (cases "err = None \<and> \<not> fin \<and> \<not> clock w1 - startTime > timeout")
    case True
    then have "pollLoop env condition timeout startTime
                 (timeSleep env waitInterval w1) = (r, w')"
      using "1.prems"(1) c by (simp split: option.splits)
    then have "appends P (timeSleep env waitInterval w1) w'"
      using "1.IH" c True "1.prems"(2,3) by auto
    moreover have "appends P w (timeSleep env waitInterval w1)"
      using a1 "1.prems"(3) timeSleep_appends by blast
    ultimately show ?thesis
      using appends_trans by blast
  next
    case False
    then have "w' = w1"
      using "1.prems"(1) c by (auto split: option.splits if_splits)
    with a1 show ?thesis by simp
  qed
qed

lemma functionCondition_no_error: "snd (fst (functionCondition env jsCode w)) = None"
  by (simp add: functionCondition_def split: prod.splits sum.splits jsval.splits)

lemma evalCondition_no_error: "snd (fst (evalCondition env condition w)) = None"
  by (cases condition)
    (simp_all add: functionCondition_def selectorCondition_def urlChangedCondition_def
      split: prod.splits sum.splits jsval.splits)

text \<open>A wait ends with \<^verbatim>\<open>nil\<close> or with its own timeout error, after more than the timeout.\<close>

lemma pollLoop_result:
  "fst (pollLoop env condition timeout startTime w) = None \<or>
   (\<exists>t. timeout < t \<and>
      fst (pollLoop env condition timeout startTime w) = Some (timeoutError t))"
proof (induction env condition timeout startTime w rule: pollLoop.induct)
  case (1 env condition timeout startTime w)
  obtain fin err w1 where c: "evalCondition env condition w = ((fin, err), w1)"
    by (metis prod.exhaust)
  with evalCondition_no_error [of env condition w] have e: "err = None" by simp
  show ?case
  proof (cases "\<not> fin \<and> \<not> clock w1 - startTime > timeout")
    case True
    then show ?thesis
      using "1.IH" [OF c [symmetric] refl e] c e by simp
  next
    case False
    then show ?thesis
      using c e by auto
  qed
qed

subsection \<open>Polling\<close>

text \<open>
  C6. Whatever the script and the timeout, the condition that \<^verbatim>\<open>waitForFunction\<close>
  polls never yields an error; when running the script fails it yields \<^verbatim>\<open>false\<close>
  (not yet satisfied). So \<^verbatim>\<open>waitForFunction\<close> itself returns either \<^verbatim>\<open>nil\<close> or the
  timeout error of the wait, raised after more than the timeout, never the error
  of the script.
\<close>

theorem waitForFunction_swallows_errors:
  "snd (fst (functionCondition env jsCode w)) = None \<and>
   (\<forall>e. fst (wdExecuteScript env jsCode w) = Inl e \<longrightarrow>
        fst (fst (functionCondition env jsCode w)) = False) \<and>
   (fst (waitForFunction env jsCode timeout w) = None \<or>
    (\<exists>t. timeout < t \<and>
       fst (waitForFunction env jsCode timeout w) = Some (timeoutError t)))"
proof -
  have "fst (wdExecuteScript env jsCode w) = Inl e \<Longrightarrow>
        fst (fst (functionCondition env jsCode w)) = False" for e
    by (auto simp: functionCondition_def split: prod.splits)
  moreover have "fst (waitForFunction env jsCode timeout w) = None \<or>
    (\<exists>t. timeout < t \<and>
       fst (waitForFunction env jsCode timeout w) = Some (timeoutError t))"
    unfolding waitForFunction_def wdWaitWithTimeout_def
    using pollLoop_result [of env "ScriptTrue jsCode" timeout]
    by blast
  ultimately show ?thesis
    using functionCondition_no_error by blast
qed

text \<open>
  On the example site the script \<^verbatim>\<open>throw 1\<close> fails at every evaluation; a wait of
  300 ms evaluates it four times and ends with the timeout error.
\<close>

theorem waitForFunction_swallows_errors_witness:
  "fst (wdExecuteScript (siteEnv plainSite) ''throw 1'' start) = Inl ''javascript error: 1'' \<and>
   fst (functionCondition (siteEnv plainSite) ''throw 1'' start) = (False, None) \<and>
   fst (waitForFunction (siteEnv plainSite) ''throw 1'' (300 * Millisecond) start)
     = Some ''timeout after 304ms'' \<and>
   map snd (filter (\<lambda>ev. fst ev = ExecuteScript ''throw 1'')
     (trace (snd (waitForFunction (siteEnv plainSite) ''throw 1'' (300 * Millisecond) start))))
     = replicate 4 (Failed ''javascript error: 1'')"
proof -
  have fails: "fst (wdExecuteScript (siteEnv plainSite) ''throw 1'' start)
      = Inl ''javascript error: 1''"
    by code_simp
  have timeout: "fst (waitForFunction (siteEnv plainSite) ''throw 1'' (300 * Millisecond) start)
      = Some ''timeout after 304ms''"
    by code_simp
  have polls: "map snd (filter (\<lambda>ev. fst ev = ExecuteScript ''throw 1'')
     (trace (snd (waitForFunction (siteEnv plainSite) ''throw 1'' (300 * Millisecond) start))))
     = replicate 4 (Failed ''javascript error: 1'')"
    by code_simp
  from waitForFunction_swallows_errors [of "siteEnv plainSite" "''throw 1''" start "300 * Millisecond"]
  show ?thesis
    using fails timeout polls
    by (cases "fst (functionCondition (siteEnv plainSite) ''throw 1'' start)") auto
qed

subsection \<open>Calls of the phases\<close>

lemmas driver_defs =
  newGeckoDriverService_def osMkdirAll_def newRemote_def wdGet_def wdExecuteScript_def
  wdFindElement_def elemClear_def elemSendKeys_def elemClick_def wdCurrentURL_def
  wdPageSource_def wdLog_def wdScreenshot_def osWriteFile_def

lemma appends_logCall: "appends P w1 w \<Longrightarrow> P c \<Longrightarrow> appends P w1 (logCall c w)"
  by (auto simp: appends_def logCall_def)

lemma appends_perform:
  "perform env c reply f w = (r, w') \<Longrightarrow> appends P w1 w \<Longrightarrow> P c \<Longrightarrow> appends P w1 w'"
  by (auto simp: appends_def dest: perform_trace)

lemma wdWaitWithTimeout_appends:
  "wdWaitWithTimeout env condition timeout w = (r, w') \<Longrightarrow>
   (\<And>w r w'. evalCondition env condition w = (r, w') \<Longrightarrow> appends P w w') \<Longrightarrow>
   P (WaitWithTimeout timeout) \<Longrightarrow> P (Sleep waitInterval) \<Longrightarrow> appends P w w'"
  unfolding wdWaitWithTimeout_def
  using pollLoop_appends [of env condition timeout "clock w" "logCall (WaitWithTimeout timeout) w" r w' P]
    appends_logCall [of P w w "WaitWithTimeout timeout"] appends_trans appends_refl
  by blast

lemma functionCondition_appends:
  "functionCondition env jsCode w = (r, w') \<Longrightarrow> P (ExecuteScript jsCode) \<Longrightarrow> appends P w w'"
  unfolding functionCondition_def wdExecuteScript_def
  by (auto split: prod.splits sum.splits jsval.splits intro: perform_appends)

lemma selectorCondition_appends:
  "selectorCondition env selector w = (r, w') \<Longrightarrow> P (FindElement selector) \<Longrightarrow> appends P w w'"
  unfolding selectorCondition_def wdFindElement_def
  by (auto split: prod.splits sum.splits intro: perform_appends)

lemma urlChangedCondition_appends:
  "urlChangedCondition env url w = (r, w') \<Longrightarrow> P CurrentURL \<Longrightarrow> appends P w w'"
  unfolding urlChangedCondition_def wdCurrentURL_def
  by (auto split: prod.splits sum.splits intro: perform_appends)

lemma waitForFunction_appends:
  "waitForFunction env jsCode timeout w = (r, w') \<Longrightarrow> P (ExecuteScript jsCode) \<Longrightarrow>
   P (WaitWithTimeout timeout) \<Longrightarrow> P (Sleep waitInterval) \<Longrightarrow> appends P w w'"
  unfolding waitForFunction_def
  using wdWaitWithTimeout_appends [of env "ScriptTrue jsCode" timeout w r w' P]
    functionCondition_appends [of env jsCode _ _ _ P]
  by simp

lemma waitForSelector_appends:
  "waitForSelector env selector timeout w = (r, w') \<Longrightarrow> P (FindElement selector) \<Longrightarrow>
   P (WaitWithTimeout timeout) \<Longrightarrow> P (Sleep waitInterval) \<Longrightarrow> appends P w w'"
  unfolding waitForSelector_def
  using wdWaitWithTimeout_appends [of env "ElementFound selector" timeout w r w' P]
    selectorCondition_appends [of env selector _ _ _ P]
  by simp

text \<open>Calls that neither touch a form nor read the page source.\<close>

fun passiveCall :: "Call \<Rightarrow> bool" where
  "passiveCall (FindElement selector) = (selector = ''.phx-connected'')"
| "passiveCall (Clear el) = False"
| "passiveCall (SendKeys el keys) = False"
| "passiveCall (Click el) = False"
| "passiveCall PageSource = False"
| "passiveCall c = True"

lemma injectConsoleCapture_appends: "appends passiveCall w (injectConsoleCapture env w)"
  unfolding injectConsoleCapture_def wdExecuteScript_def fmtPrintf_def
  by (auto split: prod.splits sum.splits intro!: appends_logCall intro: perform_appends)

lemma detectLiveView_appends:
  "detectLiveView env w = (r, w') \<Longrightarrow> appends passiveCall w w'"
  unfolding detectLiveView_def wdExecuteScript_def
  by (auto split: prod.splits sum.splits jsval.splits intro: perform_appends)

lemma connectLiveView_appends: "appends passiveCall w (connectLiveView env w)"
proof -
  obtain err w1 where wait: "waitForSelector env ''.phx-connected'' (10 * Second)
      (fmtPrintln ''Detected Phoenix LiveView page, waiting for connection...'' w) = (err, w1)"
    by (metis prod.exhaust)
  have "appends passiveCall w (fmtPrintln ''Detected Phoenix LiveView page, waiting for connection...'' w)"
    by (simp add: fmtPrintln_appends)
  moreover have "appends passiveCall (fmtPrintln ''Detected Phoenix LiveView page, waiting for connection...'' w) w1"
    using waitForSelector_appends [OF wait, of passiveCall] by simp
  ultimately have a1: "appends passiveCall w w1"
    using appends_trans by blast
  show ?thesis
    unfolding connectLiveView_def wait wdExecuteScript_def
    using a1
    by (auto split: prod.splits sum.splits option.splits
        intro!: fmtPrintf_appends fmtPrintln_appends elim!: appends_perform)
qed

lemma currentURLOrEmpty_appends:
  "currentURLOrEmpty env w = (r, w') \<Longrightarrow> P CurrentURL \<Longrightarrow> appends P w w'"
  unfolding currentURLOrEmpty_def wdCurrentURL_def
  by (auto split: prod.splits sum.splits intro: perform_appends)

lemma liveViewScriptWait_appends: "appends passiveCall w (liveViewScriptWait env currentURL w)"
proof -
  let ?w0 = "timeSleep env (100 * Millisecond) (fmtPrintln ''Waiting for Phoenix LiveView navigation...'' w)"
  obtain r1 w1 where wait1: "waitForFunction env loadingStartedScript Second ?w0 = (r1, w1)"
    by (metis prod.exhaust)
  have "appends passiveCall w ?w0"
    by (simp add: fmtPrintln_appends timeSleep_appends)
  moreover have "appends passiveCall ?w0 w1"
    using waitForFunction_appends [OF wait1, of passiveCall] by simp
  ultimately have a1: "appends passiveCall w w1"
    using appends_trans by blast
  show ?thesis
  proof (cases r1)
    case None
    obtain r2 w2 where wait2: "waitForFunction env loadingStoppedScript (10 * Second) w1 = (r2, w2)"
      by (metis prod.exhaust)
    have "appends passiveCall w1 w2"
      using waitForFunction_appends [OF wait2, of passiveCall] by simp
    with a1 have "appends passiveCall w w2"
      using appends_trans by blast
    then show ?thesis
      by (auto simp: liveViewScriptWait_def wait1 wait2 None split: option.splits
          intro!: fmtPrintf_appends fmtPrintln_appends)
  next
    case (Some e)
    obtain u w2 where url: "currentURLOrEmpty env w1 = (u, w2)"
      by (metis prod.exhaust)
    have "appends passiveCall w1 w2"
      using currentURLOrEmpty_appends [OF url, of passiveCall] by simp
    with a1 have "appends passiveCall w w2"
      using appends_trans by blast
    then show ?thesis
      by (auto simp: liveViewScriptWait_def wait1 Some url
          intro!: fmtPrintln_appends timeSleep_appends)
  qed
qed

lemma staticScriptWait_appends: "appends passiveCall w (staticScriptWait env currentURL w)"
proof -
  let ?w0 = "timeSleep env (200 * Millisecond) (fmtPrintln ''Waiting for page navigation...'' w)"
  obtain r1 w1 where wait1:
    "wdWaitWithTimeout env (URLDiffers currentURL) (5 * Second) ?w0 = (r1, w1)"
    by (metis prod.exhaust)
  have "appends passiveCall w ?w0"
    by (simp add: fmtPrintln_appends timeSleep_appends)
  moreover have "appends passiveCall ?w0 w1"
    using wdWaitWithTimeout_appends [OF wait1, of passiveCall]
      urlChangedCondition_appends [of env currentURL _ _ _ passiveCall] by simp
  ultimately have a1: "appends passiveCall w w1"
    using appends_trans by blast
  show ?thesis
  proof (cases r1)
    case None
    let ?w1 = "fmtPrintln ''Navigation detected, waiting for page load...'' w1"
    obtain r2 w2 where wait2: "waitForFunction env readyStateScript (5 * Second) ?w1 = (r2, w2)"
      by (metis prod.exhaust)
    have "appends passiveCall w ?w1"
      using a1 by (simp add: fmtPrintln_appends)
    moreover have "appends passiveCall ?w1 w2"
      using waitForFunction_appends [OF wait2, of passiveCall] by simp
    ultimately have "appends passiveCall w w2"
      using appends_trans by blast
    then show ?thesis
      by (auto simp: staticScriptWait_def wait1 wait2 None split: option.splits
          intro!: fmtPrintf_appends fmtPrintln_appends)
  next
    case (Some e)
    with a1 show ?thesis
      by (auto simp: staticScriptWait_def wait1 intro!: fmtPrintln_appends)
  qed
qed

lemma runScript_appends: "appends passiveCall w (runScript env config isLiveView w)"
proof (cases "JSCode config = []")
  case True
  then show ?thesis by (simp add: runScript_def)
next
  case False
  obtain u w1 where url: "currentURLOrEmpty env w = (u, w1)"
    by (metis prod.exhaust)
  obtain r w2 where js: "wdExecuteScript env (JSCode config) w1 = (r, w2)"
    by (metis prod.exhaust)
  let ?w3 = "case r of Inl e \<Rightarrow> fmtPrintf (''Warning: JavaScript execution failed: '' @ e @ [NL]) w2
             | Inr v \<Rightarrow> w2"
  have "appends passiveCall w w1"
    using currentURLOrEmpty_appends [OF url, of passiveCall] by simp
  moreover have "appends passiveCall w1 w2"
    using js unfolding wdExecuteScript_def by (auto intro: perform_appends)
  ultimately have "appends passiveCall w w2"
    using appends_trans by blast
  then have a3: "appends passiveCall w ?w3"
    by (auto split: sum.splits intro!: fmtPrintf_appends)
  have "appends passiveCall w (liveViewScriptWait env u ?w3)"
    using a3 liveViewScriptWait_appends appends_trans by blast
  moreover have "appends passiveCall w (staticScriptWait env u ?w3)"
    using a3 staticScriptWait_appends appends_trans by blast
  ultimately show ?thesis
    by (simp add: runScript_def url js False)
qed

lemma takeScreenshot_appends:
  "takeScreenshot env config w = (r, w') \<Longrightarrow> appends passiveCall w w'"
  unfolding takeScreenshot_def wdScreenshot_def osWriteFile_def
  by (auto split: if_splits prod.splits sum.splits option.splits
      intro!: fmtPrintf_appends elim!: appends_perform intro: perform_appends)

lemma afterSubmit_appends:
  "afterSubmit env config w = (r, w') \<Longrightarrow> appends passiveCall w w'"
  unfolding afterSubmit_def wdGet_def
  by (auto split: if_splits prod.splits option.splits
      intro!: fmtPrintf_appends elim!: appends_perform)

lemma collectLogs_appends:
  "collectLogs env w = (r, w') \<Longrightarrow> appends passiveCall w w'"
  unfolding collectLogs_def wdExecuteScript_def wdLog_def
  by (auto split: prod.splits elim!: appends_perform intro: perform_appends)

subsection \<open>Forms\<close>

text \<open>The calls that fill the fields of a list: locate, clear, type the value.\<close>

fun fieldCall :: "string \<Rightarrow> FormInput list \<Rightarrow> Call \<Rightarrow> bool" where
  "fieldCall formID inputs (FindElement selector) =
     (\<exists>input\<in>set inputs. selector = inputSelector formID (Name input))"
| "fieldCall formID inputs (Clear el) = True"
| "fieldCall formID inputs (SendKeys el keys) = (\<exists>input\<in>set inputs. keys = Value input)"
| "fieldCall formID inputs c = False"

lemma fillInput_appends:
  "fillInput env formID input w = (r, w') \<Longrightarrow> input \<in> set inputs \<Longrightarrow>
   appends (fieldCall formID inputs) w w'"
  unfolding fillInput_def wdFindElement_def elemClear_def elemSendKeys_def
  by (auto split: prod.splits sum.splits option.splits
      elim!: appends_perform intro: perform_appends)

lemma fillInputs_appends:
  "fillInputs env formID todo w = (r, w') \<Longrightarrow> set todo \<subseteq> set inputs \<Longrightarrow>
   appends (fieldCall formID inputs) w w'"
proof (induction todo arbitrary: w)
  case Nil
  then show ?case by simp
next
  case (Cons input rest)
  obtain r1 w1 where one: "fillInput env formID input w = (r1, w1)"
    by (metis prod.exhaust)
  with Cons.prems have a1: "appends (fieldCall formID inputs) w w1"
    using fillInput_appends by fastforce
  show ?case
  proof (cases r1)
    case None
    with Cons.prems one have "fillInputs env formID rest w1 = (r, w')" by simp
    with Cons.IH Cons.prems have "appends (fieldCall formID inputs) w1 w'" by simp
    with a1 show ?thesis using appends_trans by blast
  next
    case (Some e)
    with Cons.prems one have "w' = w1" by simp
    with a1 show ?thesis by simp
  qed
qed

lemma fillInputs_stops:
  "fillInputs env formID pre w = (None, w1) \<Longrightarrow>
   fillInput env formID input w1 = (Some e, w2) \<Longrightarrow>
   fillInputs env formID (pre @ input # post) w = (Some e, w2)"
proof (induction pre arbitrary: w)
  case Nil
  then show ?case by simp
next
  case (Cons a pre)
  then show ?case
    by (cases "fillInput env formID a w") (auto split: option.splits)
qed

text \<open>
  The fields of a list could all be located, cleared and filled, one after the
  other, from the world \<open>w\<close> to the world \<open>w'\<close>: written with the calls on the driver
  alone.
\<close>

fun fieldsFilled :: "'b Env \<Rightarrow> string \<Rightarrow> FormInput list \<Rightarrow> 'b World \<Rightarrow> 'b World \<Rightarrow> bool" where
  "fieldsFilled env formID [] w w' = (w' = w)"
| "fieldsFilled env formID (input # rest) w w' =
     (case wdFindElement env (inputSelector formID (Name input)) w of
        (Inl d, wa) \<Rightarrow> False
      | (Inr el, wa) \<Rightarrow>
          (case elemClear env el wa of
             (Some d, wb) \<Rightarrow> False
           | (None, wb) \<Rightarrow>
               (case elemSendKeys env el (Value input) wb of
                  (Some d, wc) \<Rightarrow> False
                | (None, wc) \<Rightarrow> fieldsFilled env formID rest wc w')))"

lemma fieldsFilled_fillInputs:
  "fieldsFilled env formID pre w w1 \<Longrightarrow> fillInputs env formID pre w = (None, w1)"
proof (induction pre arbitrary: w)
  case Nil
  then show ?case by simp
next
  case (Cons input rest)
  show ?case
  proof (cases "wdFindElement env (inputSelector formID (Name input)) w")
    case (Pair found wa)
    then obtain el where found: "found = Inr el"
      using Cons.prems by (cases found) simp_all
    obtain cleared wb where cleared: "elemClear env el wa = (cleared, wb)"
      by (metis prod.exhaust)
    with Cons.prems Pair found have c: "cleared = None"
      by (cases cleared) simp_all
    obtain typed wc where typed: "elemSendKeys env el (Value input) wb = (typed, wc)"
      by (metis prod.exhaust)
    with Cons.prems Pair found cleared c have t: "typed = None"
      by (cases typed) simp_all
    have "fieldsFilled env formID rest wc w1"
      using Cons.prems Pair found cleared c typed t by simp
    then have "fillInputs env formID rest wc = (None, w1)"
      by (rule Cons.IH)
    then show ?thesis
      using Pair found cleared c typed t by (simp add: fillInput_def)
  qed
qed

lemma handleForm_field_fails:
  assumes "Inputs config = pre @ input # post"
    and "fieldsFilled env (FormID config) pre w w1"
    and "fillInput env (FormID config) input w1 = (Some e, w2)"
  shows "handleForm env config isLiveView w = (Some e, w2) \<and>
    appends (fieldCall (FormID config) (pre @ [input])) w w2"
proof -
  have filled: "fillInputs env (FormID config) pre w = (None, w1)"
    using assms(2) by (rule fieldsFilled_fillInputs)
  have stop: "fillInputs env (FormID config) (pre @ input # post) w = (Some e, w2)"
    using filled assms(3) by (rule fillInputs_stops)
  then have "handleForm env config isLiveView w = (Some e, w2)"
    by (simp add: handleForm_def assms(1))
  moreover have "appends (fieldCall (FormID config) (pre @ [input])) w w1"
    using fillInputs_appends [OF filled, of "pre @ [input]"] by auto
  then have "appends (fieldCall (FormID config) (pre @ [input])) w w2"
    using fillInput_appends [OF assms(3), of "pre @ [input]"] appends_trans by fastforce
  ultimately show ?thesis
    by simp
qed

text \<open>
  C5. Take any ordered field list and any field of it such that all fields before
  it could be located, cleared and filled. If the element of that field cannot be
  located, or is located and cannot be cleared, or is cleared and cannot be
  filled, then form handling ends right there: it returns an error that names the
  field (\<^verbatim>\<open>could not find input\<close>, \<^verbatim>\<open>could not clear input\<close> or
  \<^verbatim>\<open>could not fill input\<close>, then the name and the error of the driver), the world is
  the one the failing call left, and every call made since the start locates,
  clears or types into a field up to the failing one. So no later field is touched
  and nothing is submitted.
\<close>

theorem handleForm_stops_at_first_failure:
  assumes "Inputs config = pre @ input # post"
    and "fieldsFilled env (FormID config) pre w w1"
  shows
    "(\<forall>d w2.
        wdFindElement env (inputSelector (FormID config) (Name input)) w1 = (Inl d, w2) \<longrightarrow>
        handleForm env config isLiveView w
          = (Some (''could not find input '' @ Name input @ '': '' @ d), w2) \<and>
        appends (fieldCall (FormID config) (pre @ [input])) w w2) \<and>
     (\<forall>el wa d w2.
        wdFindElement env (inputSelector (FormID config) (Name input)) w1 = (Inr el, wa) \<and>
        elemClear env el wa = (Some d, w2) \<longrightarrow>
        handleForm env config isLiveView w
          = (Some (''could not clear input '' @ Name input @ '': '' @ d), w2) \<and>
        appends (fieldCall (FormID config) (pre @ [input])) w w2) \<and>
     (\<forall>el wa wb d w2.
        wdFindElement env (inputSelector (FormID config) (Name input)) w1 = (Inr el, wa) \<and>
        elemClear env el wa = (None, wb) \<and>
        elemSendKeys env el (Value input) wb = (Some d, w2) \<longrightarrow>
        handleForm env config isLiveView w
          = (Some (''could not fill input '' @ Name input @ '': '' @ d), w2) \<and>
        appends (fieldCall (FormID config) (pre @ [input])) w w2)"
proof -
  have "handleForm env config isLiveView w
          = (Some (''could not find input '' @ Name input @ '': '' @ d), w2) \<and>
        appends (fieldCall (FormID config) (pre @ [input])) w w2"
    if "wdFindElement env (inputSelector (FormID config) (Name input)) w1 = (Inl d, w2)"
    for d w2
    using that by (intro handleForm_field_fails [OF assms]) (simp add: fillInput_def)
  moreover have "handleForm env config isLiveView w
          = (Some (''could not clear input '' @ Name input @ '': '' @ d), w2) \<and>
        appends (fieldCall (FormID config) (pre @ [input])) w w2"
    if "wdFindElement env (inputSelector (FormID config) (Name input)) w1 = (Inr el, wa)"
      and "elemClear env el wa = (Some d, w2)"
    for el wa d w2
    using that by (intro handleForm_field_fails [OF assms]) (simp add: fillInput_def)
  moreover have "handleForm env config isLiveView w
          = (Some (''could not fill input '' @ Name input @ '': '' @ d), w2) \<and>
        appends (fieldCall (FormID config) (pre @ [input])) w w2"
    if "wdFindElement env (inputSelector (FormID config) (Name input)) w1 = (Inr el, wa)"
      and "elemClear env el wa = (None, wb)"
      and "elemSendKeys env el (Value input) wb = (Some d, w2)"
    for el wa wb d w2
    using that by (intro handleForm_field_fails [OF assms]) (simp add: fillInput_def)
  ultimately show ?thesis
    by blast
qed

text \<open>
  Three runs with the fields a, b and c: on the first site the field b is missing,
  on the second it cannot be cleared, on the third it cannot be typed into. Each
  run ends at the failing call on b, after the three calls for a.
\<close>

theorem handleForm_stops_at_first_failure_witness:
  "handleForm (siteEnv formSite) formConfig True start =
     (Some ''could not find input b: no such element'',
      \<lparr>browser = 0,
       trace = [(FindElement (inputSelector ''f'' ''a''), Element 0), (Clear 0, Done),
                (SendKeys 0 ''1'', Done),
                (FindElement (inputSelector ''f'' ''b''), Failed ''no such element'')],
       clock = 4 * Millisecond\<rparr>) \<and>
   handleForm (siteEnv lockedSite) formConfig True start =
     (Some ''could not clear input b: invalid element state'',
      \<lparr>browser = 0,
       trace = [(FindElement (inputSelector ''f'' ''a''), Element 0), (Clear 0, Done),
                (SendKeys 0 ''1'', Done),
                (FindElement (inputSelector ''f'' ''b''), Element 1),
                (Clear 1, Failed ''invalid element state'')],
       clock = 5 * Millisecond\<rparr>) \<and>
   handleForm (siteEnv frozenSite) formConfig False start =
     (Some ''could not fill input b: element not interactable'',
      \<lparr>browser = 0,
       trace = [(FindElement (inputSelector ''f'' ''a''), Element 0), (Clear 0, Done),
                (SendKeys 0 ''1'', Done),
                (FindElement (inputSelector ''f'' ''b''), Element 1), (Clear 1, Done),
                (SendKeys 1 ''2'', Failed ''element not interactable'')],
       clock = 6 * Millisecond\<rparr>)"
proof -
  let ?a = "\<lparr>Name = ''a'', Value = ''1''\<rparr>"
  let ?b = "\<lparr>Name = ''b'', Value = ''2''\<rparr>"
  let ?c = "\<lparr>Name = ''c'', Value = ''3''\<rparr>"
  let ?t1 = "[(FindElement (inputSelector ''f'' ''a''), Element 0), (Clear 0, Done),
              (SendKeys 0 ''1'', Done)]"
  let ?w1 = "\<lparr>browser = 0::nat, trace = ?t1, clock = 3 * Millisecond\<rparr>"
  let ?missing = "\<lparr>browser = 0::nat,
       trace = ?t1 @ [(FindElement (inputSelector ''f'' ''b''), Failed ''no such element'')],
       clock = 4 * Millisecond\<rparr>"
  let ?found = "\<lparr>browser = 0::nat,
       trace = ?t1 @ [(FindElement (inputSelector ''f'' ''b''), Element 1)],
       clock = 4 * Millisecond\<rparr>"
  let ?locked = "\<lparr>browser = 0::nat,
       trace = ?t1 @ [(FindElement (inputSelector ''f'' ''b''), Element 1),
                      (Clear 1, Failed ''invalid element state'')],
       clock = 5 * Millisecond\<rparr>"
  let ?cleared = "\<lparr>browser = 0::nat,
       trace = ?t1 @ [(FindElement (inputSelector ''f'' ''b''), Element 1), (Clear 1, Done)],
       clock = 5 * Millisecond\<rparr>"
  let ?frozen = "\<lparr>browser = 0::nat,
       trace = ?t1 @ [(FindElement (inputSelector ''f'' ''b''), Element 1), (Clear 1, Done),
                      (SendKeys 1 ''2'', Failed ''element not interactable'')],
       clock = 6 * Millisecond\<rparr>"
  have fields: "Inputs formConfig = [?a] @ ?b # [?c]"
    by (simp add: formConfig_def)
  have filled1: "fieldsFilled (siteEnv formSite) (FormID formConfig) [?a] start ?w1"
    by code_simp
  have filled2: "fieldsFilled (siteEnv lockedSite) (FormID formConfig) [?a] start ?w1"
    by code_simp
  have filled3: "fieldsFilled (siteEnv frozenSite) (FormID formConfig) [?a] start ?w1"
    by code_simp
  have find1: "wdFindElement (siteEnv formSite) (inputSelector (FormID formConfig) (Name ?b)) ?w1
      = (Inl ''no such element'', ?missing)"
    by code_simp
  have find2: "wdFindElement (siteEnv lockedSite) (inputSelector (FormID formConfig) (Name ?b)) ?w1
      = (Inr 1, ?found)"
    by code_simp
  have clear2: "elemClear (siteEnv lockedSite) 1 ?found = (Some ''invalid element state'', ?locked)"
    by code_simp
  have find3: "wdFindElement (siteEnv frozenSite) (inputSelector (FormID formConfig) (Name ?b)) ?w1
      = (Inr 1, ?found)"
    by code_simp
  have clear3: "elemClear (siteEnv frozenSite) 1 ?found = (None, ?cleared)"
    by code_simp
  have keys3: "elemSendKeys (siteEnv frozenSite) 1 (Value ?b) ?cleared
      = (Some ''element not interactable'', ?frozen)"
    by code_simp
  from handleForm_stops_at_first_failure [OF fields filled1, of True] find1
  have r1: "handleForm (siteEnv formSite) formConfig True start
      = (Some (''could not find input '' @ Name ?b @ '': '' @ ''no such element''), ?missing)"
    by blast
  from handleForm_stops_at_first_failure [OF fields filled2, of True] find2 clear2
  have r2: "handleForm (siteEnv lockedSite) formConfig True start
      = (Some (''could not clear input '' @ Name ?b @ '': '' @ ''invalid element state''), ?locked)"
    by blast
  from handleForm_stops_at_first_failure [OF fields filled3, of False] find3 clear3 keys3
  have r3: "handleForm (siteEnv frozenSite) formConfig False start
      = (Some (''could not fill input '' @ Name ?b @ '': '' @ ''element not interactable''), ?frozen)"
    by blast
  show ?thesis
    using r1 r2 r3 by simp
qed

subsection \<open>The run as a whole\<close>

definition notPageSource :: "Call \<Rightarrow> bool" where
  "notPageSource c = (c \<noteq> PageSource)"

lemma passive_notPageSource: "passiveCall c \<Longrightarrow> notPageSource c"
  by (cases c) (auto simp: notPageSource_def)

lemma fieldCall_notPageSource: "fieldCall formID inputs c \<Longrightarrow> notPageSource c"
  by (cases c) (auto simp: notPageSource_def)

lemma submitLiveView_appends:
  assumes "submitLiveView env config w = (r, w')"
  shows "appends notPageSource w w'"
proof -
  have P [simp]: "notPageSource (FindElement s)" "notPageSource (SendKeys el k)"
    "notPageSource (Print t)" "notPageSource (ExecuteScript js)"
    "notPageSource (WaitWithTimeout n)" "notPageSource (Sleep n)" for s el k t js n
    by (simp_all add: notPageSource_def)
  obtain r1 w1 where f: "wdFindElement env (formSelector (FormID config)) w = (r1, w1)"
    by (metis prod.exhaust)
  then have a1: "appends notPageSource w w1"
    unfolding wdFindElement_def by (auto intro: perform_appends)
  show ?thesis
  proof (cases r1)
    case (Inl e)
    with assms f a1 show ?thesis by (simp add: submitLiveView_def)
  next
    case (Inr formElem)
    obtain r2 w2 where k: "elemSendKeys env formElem EnterKey w1 = (r2, w2)"
      by (metis prod.exhaust)
    then have "appends notPageSource w1 w2"
      unfolding elemSendKeys_def by (auto intro: perform_appends)
    with a1 have a2: "appends notPageSource w w2"
      using appends_trans by blast
    show ?thesis
    proof (cases r2)
      case (Some e)
      with assms f Inr k a2 show ?thesis by (simp add: submitLiveView_def)
    next
      case None
      let ?w2 = "fmtPrintln ''Waiting for Phoenix LiveView navigation...'' w2"
      obtain r3 w3 where p1: "waitForFunction env loadingStartedScript (2 * Second) ?w2 = (r3, w3)"
        by (metis prod.exhaust)
      have "appends notPageSource w ?w2"
        using a2 by (simp add: fmtPrintln_appends)
      moreover have "appends notPageSource ?w2 w3"
        using waitForFunction_appends [OF p1, of notPageSource] by simp
      ultimately have a3: "appends notPageSource w w3"
        using appends_trans by blast
      show ?thesis
      proof (cases r3)
        case (Some e)
        with assms f Inr k None p1 a3 show ?thesis
          by (auto simp: submitLiveView_def intro!: fmtPrintln_appends fmtPrintf_appends)
      next
        case started: None
        obtain r4 w4 where p2: "waitForFunction env loadingStoppedScript (10 * Second) w3 = (r4, w4)"
          by (metis prod.exhaust)
        have "appends notPageSource w3 w4"
          using waitForFunction_appends [OF p2, of notPageSource] by simp
        with a3 have "appends notPageSource w w4"
          using appends_trans by blast
        with assms f Inr k None p1 started p2 show ?thesis
          by (auto simp: submitLiveView_def split: option.splits
              intro!: fmtPrintln_appends fmtPrintf_appends)
      qed
    qed
  qed
qed

lemma submitStatic_appends:
  "submitStatic env config w = (r, w') \<Longrightarrow> appends notPageSource w w'"
  unfolding submitStatic_def wdFindElement_def elemSendKeys_def elemClick_def
  by (auto simp: notPageSource_def split: prod.splits sum.splits option.splits
      intro!: fmtPrintln_appends elim!: appends_perform intro: perform_appends)

lemma handleForm_appends:
  assumes "handleForm env config isLiveView w = (r, w')"
  shows "appends notPageSource w w'"
proof -
  obtain r1 w1 where f: "fillInputs env (FormID config) (Inputs config) w = (r1, w1)"
    by (metis prod.exhaust)
  have "appends (fieldCall (FormID config) (Inputs config)) w w1"
    using fillInputs_appends [OF f] by simp
  then have a1: "appends notPageSource w w1"
    using appends_mono fieldCall_notPageSource by blast
  show ?thesis
  proof (cases r1)
    case (Some e)
    with assms f a1 show ?thesis by (simp add: handleForm_def)
  next
    case None
    with assms f have "submitLiveView env config w1 = (r, w') \<or> submitStatic env config w1 = (r, w')"
      by (simp add: handleForm_def split: if_splits)
    then have "appends notPageSource w1 w'"
      using submitLiveView_appends submitStatic_appends by blast
    with a1 show ?thesis using appends_trans by blast
  qed
qed

lemma session_InrE:
  assumes "session env config baseURL w = (Inr out, w')"
  obtains w1 lv w2 w3 w4 w5 content w6 msgs where
    "wdGet env baseURL w = (None, w1)"
    "detectLiveView env (injectConsoleCapture env w1) = (Inr lv, w2)"
    "(if FormID config \<noteq> [] \<and> length (Inputs config) > 0
      then handleForm env config lv (if lv then connectLiveView env w2 else w2)
      else (None, if lv then connectLiveView env w2 else w2)) = (None, w3)"
    "takeScreenshot env config (runScript env config lv w3) = (None, w4)"
    "afterSubmit env config w4 = (None, w5)"
    "wdPageSource env w5 = (Inr content, w6)"
    "collectLogs env w6 = (msgs, w')"
    "composeOutput env config baseURL content msgs = Inr out"
  using assms unfolding session_def
  by (auto split: prod.splits option.splits sum.splits)

lemma session_success:
  assumes "session env config baseURL w = (Inr out, w')"
  shows "\<exists>w1 w5 w6 content msgs.
     wdGet env baseURL w = (None, w1) \<and> appends notPageSource w1 w5 \<and>
     wdPageSource env w5 = (Inr content, w6) \<and> collectLogs env w6 = (msgs, w') \<and>
     composeOutput env config baseURL content msgs = Inr out"
proof -
  from assms obtain w1 lv w2 w3 w4 w5 content w6 msgs where
    g: "wdGet env baseURL w = (None, w1)" and
    d: "detectLiveView env (injectConsoleCapture env w1) = (Inr lv, w2)" and
    f: "(if FormID config \<noteq> [] \<and> length (Inputs config) > 0
      then handleForm env config lv (if lv then connectLiveView env w2 else w2)
      else (None, if lv then connectLiveView env w2 else w2)) = (None, w3)" and
    s: "takeScreenshot env config (runScript env config lv w3) = (None, w4)" and
    a: "afterSubmit env config w4 = (None, w5)" and
    p: "wdPageSource env w5 = (Inr content, w6)" and
    c: "collectLogs env w6 = (msgs, w')" and
    out: "composeOutput env config baseURL content msgs = Inr out"
    by (rule session_InrE)
  let ?w2 = "if lv then connectLiveView env w2 else w2"
  have "appends passiveCall w1 (injectConsoleCapture env w1)"
    by (rule injectConsoleCapture_appends)
  moreover have "appends passiveCall (injectConsoleCapture env w1) w2"
    using d by (rule detectLiveView_appends)
  moreover have "appends passiveCall w2 ?w2"
    by (simp add: connectLiveView_appends)
  ultimately have "appends passiveCall w1 ?w2"
    using appends_trans by blast
  then have a2: "appends notPageSource w1 ?w2"
    using appends_mono passive_notPageSource by blast
  have "appends notPageSource ?w2 w3"
    using f handleForm_appends by (auto split: if_splits)
  with a2 have a3: "appends notPageSource w1 w3"
    using appends_trans by blast
  have "appends passiveCall w3 (runScript env config lv w3)"
    by (rule runScript_appends)
  moreover have "appends passiveCall (runScript env config lv w3) w4"
    using s by (rule takeScreenshot_appends)
  moreover have "appends passiveCall w4 w5"
    using a by (rule afterSubmit_appends)
  ultimately have "appends passiveCall w3 w5"
    using appends_trans by blast
  then have "appends notPageSource w3 w5"
    using appends_mono passive_notPageSource by blast
  with a3 have "appends notPageSource w1 w5"
    using appends_trans by blast
  with g p c out show ?thesis by blast
qed

definition quietCall :: "Call \<Rightarrow> bool" where
  "quietCall c = (passiveCall c \<or> c = PageSource)"

lemma passive_quiet: "appends passiveCall a b \<Longrightarrow> appends quietCall a b"
  unfolding appends_def quietCall_def by auto

lemma session_noform_appends:
  assumes "Inputs config = []" and "session env config baseURL w = (r, w')"
  shows "appends quietCall w w'"
proof -
  have get: "wdGet env u a = (x, b) \<Longrightarrow> appends quietCall a b" for u a x b
    unfolding wdGet_def by (auto simp: quietCall_def intro: perform_appends)
  have src: "wdPageSource env a = (y, b) \<Longrightarrow> appends quietCall a b" for a y b
    unfolding wdPageSource_def by (auto simp: quietCall_def intro: perform_appends)
  have inject: "appends quietCall a (injectConsoleCapture env a)" for a
    by (simp add: passive_quiet injectConsoleCapture_appends)
  have detect: "detectLiveView env a = (z, b) \<Longrightarrow> appends quietCall a b" for a z b
    by (simp add: passive_quiet detectLiveView_appends)
  have connect: "appends quietCall a (if lv then connectLiveView env a else a)" for a lv
    by (simp add: passive_quiet connectLiveView_appends)
  have script: "appends quietCall a (runScript env config lv a)" for a lv
    by (simp add: passive_quiet runScript_appends)
  have shot: "takeScreenshot env config a = (x, b) \<Longrightarrow> appends quietCall a b" for a x b
    by (simp add: passive_quiet takeScreenshot_appends)
  have after: "afterSubmit env config a = (x, b) \<Longrightarrow> appends quietCall a b" for a x b
    by (simp add: passive_quiet afterSubmit_appends)
  have logs: "collectLogs env a = (m, b) \<Longrightarrow> appends quietCall a b" for a m b
    by (simp add: passive_quiet collectLogs_appends)
  obtain r1 w1 where g: "wdGet env baseURL w = (r1, w1)"
    by (metis prod.exhaust)
  note a1 = get [OF g]
  show ?thesis
  proof (cases r1)
    case (Some e)
    with assms g a1 show ?thesis by (simp add: session_def)
  next
    case None
    obtain r2 w2 where d: "detectLiveView env (injectConsoleCapture env w1) = (r2, w2)"
      by (metis prod.exhaust)
    have a2: "appends quietCall w w2"
      using a1 inject [of w1] detect [OF d] appends_trans by blast
    show ?thesis
    proof (cases r2)
      case (Inl failure)
      with assms g None d a2 show ?thesis by (simp add: session_def)
    next
      case (Inr lv)
      let ?w3 = "if lv then connectLiveView env w2 else w2"
      obtain r4 w4 where s: "takeScreenshot env config (runScript env config lv ?w3) = (r4, w4)"
        by (metis prod.exhaust)
      have a4: "appends quietCall w w4"
        using a2 connect [of w2 lv] script [of ?w3 lv] shot [OF s] appends_trans by blast
      show ?thesis
      proof (cases r4)
        case (Some e)
        with assms g None d Inr s a4 show ?thesis by (simp add: session_def)
      next
        case shot_ok: None
        obtain r5 w5 where a: "afterSubmit env config w4 = (r5, w5)"
          by (metis prod.exhaust)
        have a5: "appends quietCall w w5"
          using a4 after [OF a] appends_trans by blast
        show ?thesis
        proof (cases r5)
          case (Some e)
          with assms g None d Inr s shot_ok a a5 show ?thesis by (simp add: session_def)
        next
          case after_ok: None
          obtain r6 w6 where p: "wdPageSource env w5 = (r6, w6)"
            by (metis prod.exhaust)
          have a6: "appends quietCall w w6"
            using a5 src [OF p] appends_trans by blast
          obtain msgs w7 where c: "collectLogs env w6 = (msgs, w7)"
            by (metis prod.exhaust)
          have a7: "appends quietCall w w7"
            using a6 logs [OF c] appends_trans by blast
          from assms g None d Inr s shot_ok a after_ok p c a6 a7 show ?thesis
            by (cases r6) (simp_all add: session_def)
        qed
      qed
    qed
  qed
qed

lemma FormID_irrelevant:
  "runScript env (config\<lparr>FormID := x\<rparr>) lv w = runScript env config lv w"
  "takeScreenshot env (config\<lparr>FormID := x\<rparr>) w = takeScreenshot env config w"
  "afterSubmit env (config\<lparr>FormID := x\<rparr>) w = afterSubmit env config w"
  "composeOutput env (config\<lparr>FormID := x\<rparr>) baseURL content msgs
     = composeOutput env config baseURL content msgs"
  by (simp_all add: runScript_def takeScreenshot_def afterSubmit_def composeOutput_def
      truncateMarkdown_def split: prod.splits sum.splits option.splits)

lemma session_noform_FormID:
  "Inputs config = [] \<Longrightarrow>
   session env (config\<lparr>FormID := []\<rparr>) baseURL w = session env config baseURL w"
  by (simp add: session_def FormID_irrelevant split: prod.splits option.splits sum.splits)

lemma processRequest_InrE:
  assumes "processRequest env config w = (Inr out, w')"
  obtains homeDir w1 w2 w3 where
    "envUserHomeDir env = Inr homeDir"
    "newGeckoDriverService env w = (None, w1)"
    "newRemote env (envFilepathJoin env [homeDir, ''.web-firefox'', ''profiles'', Profile config])
       (snd (osMkdirAll env
          (envFilepathJoin env [homeDir, ''.web-firefox'', ''profiles'', Profile config]) w1))
     = (None, w2)"
    "session env config (ensureProtocol (URL config)) w2 = (Inr out, w3)"
    "w' = logCall ServiceStop (logCall Quit w3)"
  using assms unfolding processRequest_def
  by (auto split: prod.splits option.splits sum.splits)

lemma perform_ok_trace:
  "perform env c errReply f w = (None, w') \<Longrightarrow> trace w' = trace w @ [(c, Done)]"
  by (auto simp: errReply_def dest: perform_trace)

lemma processRequest_success:
  assumes "processRequest env config w = (Inr out, w')"
  shows "\<exists>dir reply evs content evs' msgs.
     trace w' = trace w
       @ [(NewGeckoDriverService, Done), (MkdirAll dir, reply), (NewRemote dir, Done),
          (Get (ensureProtocol (URL config)), Done)]
       @ evs @ [(PageSource, Text content)] @ evs' @ [(Quit, Done), (ServiceStop, Done)] \<and>
     (\<forall>ev\<in>set evs. notPageSource (fst ev)) \<and> (\<forall>ev\<in>set evs'. passiveCall (fst ev)) \<and>
     composeOutput env config (ensureProtocol (URL config)) content msgs = Inr out"
proof -
  let ?base = "ensureProtocol (URL config)"
  from assms obtain homeDir w1 w2 w3 where
    svc: "newGeckoDriverService env w = (None, w1)" and
    rem: "newRemote env (envFilepathJoin env [homeDir, ''.web-firefox'', ''profiles'', Profile config])
       (snd (osMkdirAll env
          (envFilepathJoin env [homeDir, ''.web-firefox'', ''profiles'', Profile config]) w1))
     = (None, w2)" and
    ses: "session env config ?base w2 = (Inr out, w3)" and
    fin: "w' = logCall ServiceStop (logCall Quit w3)"
    by (rule processRequest_InrE)
  let ?dir = "envFilepathJoin env [homeDir, ''.web-firefox'', ''profiles'', Profile config]"
  obtain mr wm where mk: "osMkdirAll env ?dir w1 = (mr, wm)"
    by (metis prod.exhaust)
  from ses obtain s1 w5 w6 content msgs where
    get: "wdGet env ?base w2 = (None, s1)" and
    mid: "appends notPageSource s1 w5" and
    src: "wdPageSource env w5 = (Inr content, w6)" and
    logs: "collectLogs env w6 = (msgs, w3)" and
    out: "composeOutput env config ?base content msgs = Inr out"
    using session_success by blast
  from mid obtain evs where evs: "trace w5 = trace s1 @ evs" "\<forall>ev\<in>set evs. notPageSource (fst ev)"
    by (auto simp: appends_def)
  from collectLogs_appends [OF logs] obtain evs' where
    evs': "trace w3 = trace w6 @ evs'" "\<forall>ev\<in>set evs'. passiveCall (fst ev)"
    by (auto simp: appends_def)
  have t1: "trace w1 = trace w @ [(NewGeckoDriverService, Done)]"
    using svc unfolding newGeckoDriverService_def by (rule perform_ok_trace)
  have tm: "trace wm = trace w1 @ [(MkdirAll ?dir, errReply mr)]"
    using mk unfolding osMkdirAll_def by (rule perform_trace)
  have t2: "trace w2 = trace wm @ [(NewRemote ?dir, Done)]"
    using rem mk unfolding newRemote_def by (auto dest: perform_ok_trace)
  have t3: "trace s1 = trace w2 @ [(Get ?base, Done)]"
    using get unfolding wdGet_def by (rule perform_ok_trace)
  have t6: "trace w6 = trace w5 @ [(PageSource, Text content)]"
    using src unfolding wdPageSource_def by (auto simp: textReply_def dest: perform_trace)
  have "trace w' = trace w
       @ [(NewGeckoDriverService, Done), (MkdirAll ?dir, errReply mr), (NewRemote ?dir, Done),
          (Get ?base, Done)]
       @ evs @ [(PageSource, Text content)] @ evs' @ [(Quit, Done), (ServiceStop, Done)]"
    by (simp add: fin logCall_def t1 tm t2 t3 t6 evs(1) evs'(1))
  with evs(2) evs'(2) out show ?thesis by blast
qed

text \<open>
  C7. When raw mode is requested, a run that returns a result returns exactly what
  the driver gave for the page source: the run asks for the page source once, and
  its output is the text of that reply, with no normalization, truncation, header
  or console section.
\<close>

theorem raw_mode_returns_page_source:
  assumes "RawFlag config" and "processRequest env config w = (Inr out, w')"
  shows "\<exists>pre post. trace w' = trace w @ pre @ (PageSource, Text out) # post \<and>
     (\<forall>ev\<in>set pre. fst ev \<noteq> PageSource) \<and> (\<forall>ev\<in>set post. fst ev \<noteq> PageSource)"
proof -
  from processRequest_success [OF assms(2)] obtain dir reply evs content evs' msgs where
    tr: "trace w' = trace w
       @ [(NewGeckoDriverService, Done), (MkdirAll dir, reply), (NewRemote dir, Done),
          (Get (ensureProtocol (URL config)), Done)]
       @ evs @ [(PageSource, Text content)] @ evs' @ [(Quit, Done), (ServiceStop, Done)]" and
    evs: "\<forall>ev\<in>set evs. notPageSource (fst ev)" and
    evs': "\<forall>ev\<in>set evs'. passiveCall (fst ev)" and
    out: "composeOutput env config (ensureProtocol (URL config)) content msgs = Inr out"
    by blast
  from out assms(1) have same: "out = content"
    by (simp add: composeOutput_def)
  let ?pre = "[(NewGeckoDriverService, Done), (MkdirAll dir, reply), (NewRemote dir, Done),
          (Get (ensureProtocol (URL config)), Done)] @ evs"
  let ?post = "evs' @ [(Quit, Done), (ServiceStop, Done)]"
  have "trace w' = trace w @ ?pre @ (PageSource, Text out) # ?post"
    using tr same by simp
  moreover have "\<forall>ev\<in>set ?pre. fst ev \<noteq> PageSource"
    using evs by (auto simp: notPageSource_def)
  moreover have "\<forall>ev\<in>set ?post. fst ev \<noteq> PageSource"
    using evs' passive_notPageSource by (auto simp: notPageSource_def)
  ultimately show ?thesis by blast
qed

theorem raw_mode_returns_page_source_witness:
  "RawFlag rawConfig \<and>
   fst (processRequest (siteEnv plainSite) rawConfig start) = Inr ''<ul><li>- foo bar</li></ul>'' \<and>
   (\<exists>pre post. trace (snd (processRequest (siteEnv plainSite) rawConfig start))
        = trace start @ pre @ (PageSource, Text ''<ul><li>- foo bar</li></ul>'') # post \<and>
      (\<forall>ev\<in>set pre. fst ev \<noteq> PageSource) \<and> (\<forall>ev\<in>set post. fst ev \<noteq> PageSource))"
proof -
  have raw: "RawFlag rawConfig"
    by (simp add: rawConfig_def)
  have out: "fst (processRequest (siteEnv plainSite) rawConfig start)
      = Inr ''<ul><li>- foo bar</li></ul>''"
    by code_simp
  then have run: "processRequest (siteEnv plainSite) rawConfig start
      = (Inr ''<ul><li>- foo bar</li></ul>'', snd (processRequest (siteEnv plainSite) rawConfig start))"
    by (simp add: prod_eq_iff)
  from raw_mode_returns_page_source [OF raw run] show ?thesis
    using raw out by blast
qed

lemma headerBlock_text:
  "headerBlock baseURL
     = ''=========================='' @ [NL] @ baseURL @ [NL] @ ''=========================='' @ [NL, NL]"
proof -
  have "replicate 26 (CHR ''='') = ''==========================''"
    by code_simp
  then show ?thesis
    by (simp add: headerBlock_def)
qed

text \<open>
  C8. \<^verbatim>\<open>ensureProtocol\<close> leaves a URL that begins with \<^verbatim>\<open>http://\<close> or \<^verbatim>\<open>https://\<close> as it
  is and puts \<^verbatim>\<open>http://\<close> in front of any other. A run that returns a result has
  navigated first to that URL, and unless raw mode is on its output begins with
  the header: a line of 26 equals signs, that URL on a line of its own, a second
  line of 26 equals signs and an empty line.
\<close>

theorem url_gets_protocol:
  "ensureProtocol url =
     (if HasPrefix url ''http://'' \<or> HasPrefix url ''https://'' then url else ''http://'' @ url) \<and>
   (processRequest env config w = (Inr out, w') \<longrightarrow>
      (\<exists>pre post. trace w' = trace w @ pre @ (Get (ensureProtocol (URL config)), Done) # post \<and>
         (\<forall>ev\<in>set pre. \<forall>u. fst ev \<noteq> Get u)) \<and>
      (\<not> RawFlag config \<longrightarrow>
         prefix (''=========================='' @ [NL] @ ensureProtocol (URL config) @ [NL]
                   @ ''=========================='' @ [NL, NL]) out))"
proof -
  have "\<exists>pre post. trace w' = trace w @ pre @ (Get (ensureProtocol (URL config)), Done) # post \<and>
         (\<forall>ev\<in>set pre. \<forall>u. fst ev \<noteq> Get u)"
    and "\<not> RawFlag config \<longrightarrow>
         prefix (''=========================='' @ [NL] @ ensureProtocol (URL config) @ [NL]
                   @ ''=========================='' @ [NL, NL]) out"
    if run: "processRequest env config w = (Inr out, w')"
  proof -
    from processRequest_success [OF run] obtain dir reply evs content evs' msgs where
      tr: "trace w' = trace w
         @ [(NewGeckoDriverService, Done), (MkdirAll dir, reply), (NewRemote dir, Done),
            (Get (ensureProtocol (URL config)), Done)]
         @ evs @ [(PageSource, Text content)] @ evs' @ [(Quit, Done), (ServiceStop, Done)]" and
      out: "composeOutput env config (ensureProtocol (URL config)) content msgs = Inr out"
      by blast
    let ?pre = "[(NewGeckoDriverService, Done), (MkdirAll dir, reply), (NewRemote dir, Done)]"
    let ?post = "evs @ [(PageSource, Text content)] @ evs' @ [(Quit, Done), (ServiceStop, Done)]"
    have "trace w' = trace w @ ?pre @ (Get (ensureProtocol (URL config)), Done) # ?post"
      using tr by simp
    moreover have "\<forall>ev\<in>set ?pre. \<forall>u. fst ev \<noteq> Get u"
      by simp
    ultimately show "\<exists>pre post. trace w' = trace w @ pre @ (Get (ensureProtocol (URL config)), Done) # post \<and>
         (\<forall>ev\<in>set pre. \<forall>u. fst ev \<noteq> Get u)"
      by blast
    have "\<not> RawFlag config \<longrightarrow> prefix (headerBlock (ensureProtocol (URL config))) out"
      using out by (auto simp: composeOutput_def split: sum.splits)
    then show "\<not> RawFlag config \<longrightarrow>
         prefix (''=========================='' @ [NL] @ ensureProtocol (URL config) @ [NL]
                   @ ''=========================='' @ [NL, NL]) out"
      unfolding headerBlock_text .
  qed
  then show ?thesis
    by (simp add: ensureProtocol_def)
qed

text \<open>
  The run for \<^verbatim>\<open>example.com\<close> on the example site: the whole output, and the
  navigation.
\<close>

theorem url_gets_protocol_witness:
  "ensureProtocol ''example.com'' = ''http://example.com'' \<and>
   ensureProtocol ''https://example.com'' = ''https://example.com'' \<and>
   URL plainConfig = ''example.com'' \<and> \<not> RawFlag plainConfig \<and>
   fst (processRequest (siteEnv plainSite) plainConfig start)
     = Inr (''=========================='' @ [NL] @ ''http://example.com'' @ [NL]
            @ ''=========================='' @ [NL, NL] @ ''- foo bar'') \<and>
   (\<exists>pre post. trace (snd (processRequest (siteEnv plainSite) plainConfig start))
        = trace start @ pre @ (Get ''http://example.com'', Done) # post \<and>
      (\<forall>ev\<in>set pre. \<forall>u. fst ev \<noteq> Get u))"
proof -
  let ?out = "''=========================='' @ [NL] @ ''http://example.com'' @ [NL]
            @ ''=========================='' @ [NL, NL] @ ''- foo bar''"
  have url: "URL plainConfig = ''example.com''" and raw: "\<not> RawFlag plainConfig"
    by (simp_all add: plainConfig_def defaultConfig_def)
  have p1: "ensureProtocol ''example.com'' = ''http://example.com''"
    and p2: "ensureProtocol ''https://example.com'' = ''https://example.com''"
    by (simp_all add: ensureProtocol_def HasPrefix_def)
  have out: "fst (processRequest (siteEnv plainSite) plainConfig start) = Inr ?out"
    by code_simp
  then have run: "processRequest (siteEnv plainSite) plainConfig start
      = (Inr ?out, snd (processRequest (siteEnv plainSite) plainConfig start))"
    by (simp add: prod_eq_iff)
  from url_gets_protocol [of "''example.com''" "siteEnv plainSite" plainConfig start
      ?out "snd (processRequest (siteEnv plainSite) plainConfig start)"]
  have "\<exists>pre post. trace (snd (processRequest (siteEnv plainSite) plainConfig start))
        = trace start @ pre @ (Get ''http://example.com'', Done) # post \<and>
      (\<forall>ev\<in>set pre. \<forall>u. fst ev \<noteq> Get u)"
    using run url raw p1 by metis
  then show ?thesis
    using url raw p1 p2 out by blast
qed

text \<open>
  C10. With an empty field list, whatever the form id, a run makes no call that
  clears, types into or clicks an element, and looks up no element other than the
  LiveView connection marker: the form is neither filled nor submitted. The run is
  the same as the one without a form id.
\<close>

theorem no_fields_no_form_interaction:
  assumes "Inputs config = []" and "processRequest env config w = (r, w')"
  shows "appends quietCall w w' \<and> processRequest env (config\<lparr>FormID := []\<rparr>) w = (r, w')"
proof -
  have same: "processRequest env (config\<lparr>FormID := []\<rparr>) w = processRequest env config w"
    using assms(1)
    by (simp add: processRequest_def session_noform_FormID
        split: sum.splits prod.splits option.splits)
  have quiet: "quietCall NewGeckoDriverService" "quietCall (MkdirAll d)" "quietCall (NewRemote d)"
    "quietCall Quit" "quietCall ServiceStop" for d
    by (simp_all add: quietCall_def)
  have "appends quietCall w w'"
  proof (cases "envUserHomeDir env")
    case (Inl e)
    with assms(2) show ?thesis by (simp add: processRequest_def)
  next
    case (Inr homeDir)
    let ?dir = "envFilepathJoin env [homeDir, ''.web-firefox'', ''profiles'', Profile config]"
    obtain r1 w1 where svc: "newGeckoDriverService env w = (r1, w1)"
      by (metis prod.exhaust)
    then have a1: "appends quietCall w w1"
      unfolding newGeckoDriverService_def using quiet by (auto intro: perform_appends)
    obtain mr wm where mk: "osMkdirAll env ?dir w1 = (mr, wm)"
      by (metis prod.exhaust)
    then have "appends quietCall w1 wm"
      unfolding osMkdirAll_def using quiet by (auto intro: perform_appends)
    with a1 have am: "appends quietCall w wm"
      using appends_trans by blast
    obtain r2 w2 where rem: "newRemote env ?dir wm = (r2, w2)"
      by (metis prod.exhaust)
    then have "appends quietCall wm w2"
      unfolding newRemote_def using quiet by (auto intro: perform_appends)
    with am have a2: "appends quietCall w w2"
      using appends_trans by blast
    obtain r3 w3 where ses: "session env config (ensureProtocol (URL config)) w2 = (r3, w3)"
      by (metis prod.exhaust)
    have "appends quietCall w2 w3"
      using assms(1) ses by (rule session_noform_appends)
    with a2 have a3: "appends quietCall w w3"
      using appends_trans by blast
    from assms(2) Inr svc mk rem ses a1 a2 a3 quiet show ?thesis
      by (auto simp: processRequest_def split: option.splits intro!: appends_logCall)
  qed
  with same assms(2) show ?thesis by simp
qed

theorem no_fields_no_form_interaction_witness:
  "Inputs noFieldsConfig = [] \<and> FormID noFieldsConfig = ''f'' \<and>
   appends quietCall start (snd (processRequest (siteEnv formSite) noFieldsConfig start)) \<and>
   processRequest (siteEnv formSite) (noFieldsConfig\<lparr>FormID := []\<rparr>) start
     = processRequest (siteEnv formSite) noFieldsConfig start"
proof -
  have none: "Inputs noFieldsConfig = []" and form: "FormID noFieldsConfig = ''f''"
    by (simp_all add: noFieldsConfig_def defaultConfig_def)
  have run: "processRequest (siteEnv formSite) noFieldsConfig start
      = (fst (processRequest (siteEnv formSite) noFieldsConfig start),
         snd (processRequest (siteEnv formSite) noFieldsConfig start))"
    by simp
  from no_fields_no_form_interaction [OF none run] show ?thesis
    using none form by simp
qed

subsection \<open>Console messages\<close>

text \<open>The level text the specification asks for: upper case, with WARN written out.\<close>

definition levelText :: "'b Env \<Rightarrow> string \<Rightarrow> string" where
  "levelText env level = (if ToUpper env level = ''WARN'' then ''WARNING'' else ToUpper env level)"

text \<open>
  The merge as the specification words it: every instrumented entry, given by its
  level and message, in the order of emission, and then the native channel, which
  is the browser's log filtered to the severities WARNING, ERROR and SEVERE; the
  level text of every entry is upper-cased with WARN written out.
\<close>

definition nativeChannelAsSpecified :: "'b Env \<Rightarrow> LogMessage list \<Rightarrow> LogMessage list" where
  "nativeChannelAsSpecified env entries =
     filter (\<lambda>e. levelText env (Level e) = ''WARNING'' \<or> levelText env (Level e) = ''ERROR''
                 \<or> levelText env (Level e) = ''SEVERE'') entries"

definition mergedAsSpecified :: "'b Env \<Rightarrow> (string \<times> string) list \<Rightarrow> LogMessage list \<Rightarrow> string list" where
  "mergedAsSpecified env instrumented browserLog =
     map (\<lambda>(level, message). logLine (levelText env level) message) instrumented
     @ map (\<lambda>e. logLine (levelText env (Level e)) (Message e))
         (nativeChannelAsSpecified env browserLog)"

text \<open>
  What the program reads from an entry of the captured list that is an object: the
  level (LOG when the entry has no level string) and the message.
\<close>

definition capturedEntry :: "(string \<times> jsval) list \<Rightarrow> string \<times> string" where
  "capturedEntry logMap =
     (case map_of logMap ''level'' of Some (JStr lvl) \<Rightarrow> lvl | _ \<Rightarrow> ''LOG'',
      case map_of logMap ''message'' of Some (JStr msg) \<Rightarrow> msg | _ \<Rightarrow> [])"

definition objectEntries :: "jsval list \<Rightarrow> (string \<times> jsval) list list" where
  "objectEntries logArray =
     List.map_filter (\<lambda>entry. case entry of JObj logMap \<Rightarrow> Some logMap | _ \<Rightarrow> None) logArray"

lemma levelText_LOG: "levelText env ''LOG'' = ''LOG''"
  by (simp add: levelText_def ToUpper_def asciiUpper_def)

lemma capturedLines_objects:
  "List.map_filter (capturedLine env) logArray =
   map (\<lambda>(level, message). logLine (levelText env level) message)
     (map capturedEntry (objectEntries logArray))"
proof (induction logArray)
  case Nil
  then show ?case by (simp add: objectEntries_def map_filter_simps)
next
  case (Cons entry rest)
  then show ?case
    using levelText_LOG [of env]
    by (cases entry)
       (auto simp: objectEntries_def map_filter_simps capturedLine_def capturedEntry_def
          levelText_def split: option.splits jsval.splits)
qed

lemma browserLines_reported:
  "\<forall>e\<in>set entries. ToUpper env (Level e) \<noteq> ''WARN'' \<Longrightarrow>
   List.map_filter (browserLine env) entries =
   map (\<lambda>e. logLine (levelText env (Level e)) (Message e))
     (nativeChannelAsSpecified env entries)"
proof (induction entries)
  case Nil
  then show ?case by (simp add: map_filter_simps nativeChannelAsSpecified_def)
next
  case (Cons e rest)
  then show ?case
    by (auto simp: map_filter_simps browserLine_def nativeChannelAsSpecified_def levelText_def)
qed

text \<open>
  When the capture script returns a list and the browser's log is read, and no
  entry of that log has a level that upper-cases to WARN, the program's messages
  are the merge of the specification, on the entries of the captured list that
  are objects.
\<close>

lemma collectLogs_as_specified:
  assumes "envExecuteScript env capturedLogsScript (browser w) = (Inr (JArr logArray), b1)"
    and "envLog env b1 = (Inr entries, b2)"
    and "\<forall>e\<in>set entries. ToUpper env (Level e) \<noteq> ''WARN''"
  shows "fst (collectLogs env w)
    = mergedAsSpecified env (map capturedEntry (objectEntries logArray)) entries"
  using assms(1,2)
  by (simp add: collectLogs_def wdExecuteScript_def wdLog_def perform_def mergedAsSpecified_def
      capturedLines_objects browserLines_reported [OF assms(3)])

text \<open>
  C3. The claim asks that every merged entry's level text be upper-cased with WARN
  written out as WARNING. The program does so for the instrumented entries (lines
  635 to 637) but not for the browser's own log (lines 653 to 657): an entry of
  level WARN passes the filter and is printed with the level WARN. On a page that
  logged \<^verbatim>\<open>a\<close> through \<^verbatim>\<open>console.warn\<close> and whose browser log holds entries of levels
  INFO, WARN and SEVERE, the order is the one claimed and the INFO entry is
  filtered out, but the second message reads \<^verbatim>\<open>[WARN] z\<close> where the merge of the
  specification has \<^verbatim>\<open>[WARNING] z\<close>; the message appears so in the output.
\<close>

theorem native_warn_level_not_expanded:
  "envExecuteScript (siteEnv logSite) capturedLogsScript 0
     = (Inr (JArr [JObj [(''level'', JStr ''warn''), (''message'', JStr ''a'')]]), 0) \<and>
   envLog (siteEnv logSite) 0
     = (Inr [\<lparr>Level = ''INFO'', Message = ''x''\<rparr>, \<lparr>Level = ''WARN'', Message = ''z''\<rparr>,
             \<lparr>Level = ''SEVERE'', Message = ''y''\<rparr>], 0) \<and>
   mergedAsSpecified (siteEnv logSite) [(''warn'', ''a'')]
       [\<lparr>Level = ''INFO'', Message = ''x''\<rparr>, \<lparr>Level = ''WARN'', Message = ''z''\<rparr>,
        \<lparr>Level = ''SEVERE'', Message = ''y''\<rparr>]
     = [''[WARNING] a'', ''[WARNING] z'', ''[SEVERE] y''] \<and>
   fst (collectLogs (siteEnv logSite) start) = [''[WARNING] a'', ''[WARN] z'', ''[SEVERE] y''] \<and>
   fst (processRequest (siteEnv logSite) plainConfig start)
     = Inr (headerBlock ''http://example.com'' @ ''- foo bar'' @ [NL, NL]
            @ replicate 50 (CHR ''='') @ [NL] @ ''CONSOLE OUTPUT:'' @ [NL]
            @ replicate 50 (CHR ''='') @ [NL]
            @ ''[WARNING] a'' @ [NL] @ ''[WARN] z'' @ [NL] @ ''[SEVERE] y'' @ [NL])"
  by code_simp

subsection \<open>The wait after a LiveView form submission\<close>









subsection \<open>Truncation\<close>

text \<open>
  C1. The claim asks the notice to state the length of the normalized text that is
  cut. The program states \<^verbatim>\<open>len(text)\<close>, the length before normalization, although
  it tests and cuts \<^verbatim>\<open>markdown\<close>. On a page whose text is \<^verbatim>\<open>* - foo bar\<close> (11 bytes)
  the normalized text is \<^verbatim>\<open>- foo bar\<close> (9 bytes); with a budget of 5 the body is its
  first 5 bytes and the notice, and the notice says 11.
\<close>

theorem truncation_notice_states_raw_length:
  "envHtml2text (siteEnv plainSite) (siteSource plainSite) = Inr ''* - foo bar'' \<and>
   cleanMarkdown ''* - foo bar'' = ''- foo bar'' \<and>
   length (cleanMarkdown ''* - foo bar'') = 9 \<and>
   fst (processRequest (siteEnv plainSite) truncatingConfig start) =
     Inr (headerBlock ''http://example.com'' @ ''- foo'' @ [NL, NL]
          @ ''... (output truncated after 5 chars, full content was 11 chars)'')"
  by code_simp

subsection \<open>Text normalization\<close>

lemma ReplaceAll_same: "ReplaceAll s (a # old) (a # old) = s"
proof (induction s rule: length_induct)
  case (1 s)
  show ?case
  proof (cases s)
    case Nil
    then show ?thesis by simp
  next
    case (Cons c cs)
    show ?thesis
    proof (cases "prefix (a # old) (c # cs)")
      case True
      then obtain rest where cs: "c # cs = (a # old) @ rest"
        by (auto simp: prefix_def)
      then have rest: "drop (length old) cs = rest" by simp
      have "length (c # cs) = length ((a # old) @ rest)"
        using cs by simp
      then have "length rest < length s"
        using Cons by simp
      with 1 have "ReplaceAll rest (a # old) (a # old) = rest" by blast
      with True rest cs Cons show ?thesis by simp
    next
      case False
      have "ReplaceAll cs (a # old) (a # old) = cs"
        using 1 Cons by simp
      with False Cons show ?thesis by auto
    qed
  qed
qed

lemma collapseBlankLines_clean: "\<not> sublist [NL, NL, NL] (collapseBlankLines m)"
proof (induction m rule: collapseBlankLines.induct)
  case (1 markdown)
  show ?case
  proof (cases "Contains markdown [NL, NL, NL]")
    case True
    then have "collapseBlankLines markdown
        = collapseBlankLines (ReplaceAll markdown [NL, NL, NL] [NL, NL])"
      by (subst collapseBlankLines.simps) simp
    with 1 True show ?thesis by simp
  next
    case False
    then have "collapseBlankLines markdown = markdown"
      by (subst collapseBlankLines.simps) simp
    with False show ?thesis by (simp add: Contains_def)
  qed
qed

lemma collapseBlankLines_id: "\<not> sublist [NL, NL, NL] m \<Longrightarrow> collapseBlankLines m = m"
  by (subst collapseBlankLines.simps) (simp add: Contains_def)

text \<open>Splitting at newlines and joining again.\<close>

lemma Split_nonempty: "Split s [NL] \<noteq> []"
  by (induction s) (auto split: list.splits)

lemma Split_Nil: "Split [] [NL] = [[]]"
  by simp

lemma Split_NL: "Split (NL # cs) [NL] = [] # Split cs [NL]"
  by simp

lemma Split_other:
  "c \<noteq> NL \<Longrightarrow> Split (c # cs) [NL] = (c # hd (Split cs [NL])) # tl (Split cs [NL])"
  using Split_nonempty [of cs] by (cases "Split cs [NL]") auto

lemma Split_lines: "l \<in> set (Split s [NL]) \<Longrightarrow> NL \<notin> set l"
proof (induction s arbitrary: l)
  case Nil
  then show ?case by simp
next
  case (Cons c cs)
  show ?case
  proof (cases "c = NL")
    case True
    with Cons show ?thesis by (auto simp: Split_NL)
  next
    case False
    obtain h t where ht: "Split cs [NL] = h # t"
      using Split_nonempty [of cs] by (cases "Split cs [NL]") auto
    with Cons False show ?thesis
      by (auto simp: Split_other)
  qed
qed

lemma Join_Cons:
  "Join (l # rest) sep = (if rest = [] then l else l @ sep @ Join rest sep)"
  by (cases rest) simp_all

lemma Join_Split: "Join (Split s [NL]) [NL] = s"
proof (induction s)
  case Nil
  then show ?case by simp
next
  case (Cons c cs)
  show ?case
  proof (cases "c = NL")
    case True
    with Cons Split_nonempty [of cs] show ?thesis
      by (simp add: Split_NL Join_Cons)
  next
    case False
    obtain h t where ht: "Split cs [NL] = h # t"
      using Split_nonempty [of cs] by (cases "Split cs [NL]") auto
    with Cons False show ?thesis
      by (simp add: Split_other Join_Cons split: if_splits)
  qed
qed

text \<open>Occurrences of a pattern that begins with a newline in joined lines.\<close>

lemma no_newline_pattern: "NL \<notin> set l \<Longrightarrow> \<not> sublist (NL # q) l"
  using set_mono_sublist by fastforce

lemma sublist_across_line:
  "NL \<notin> set l \<Longrightarrow>
   sublist (NL # q) (l @ NL # R) \<longleftrightarrow> prefix q R \<or> sublist (NL # q) R"
proof (induction l)
  case Nil
  then show ?case by (simp add: sublist_Cons_right)
next
  case (Cons x l)
  then show ?case by (auto simp: sublist_Cons_right)
qed

lemma prefix_newline_Join:
  "NL \<notin> set l \<Longrightarrow>
   prefix (NL # q) (Join (l # rest) [NL]) \<longleftrightarrow> l = [] \<and> rest \<noteq> [] \<and> prefix q (Join rest [NL])"
  by (cases l) (auto simp: Join_Cons)

lemma prefix_bullet_Join:
  "NL \<notin> set l \<Longrightarrow> prefix ''* '' (Join (l # rest) [NL]) \<longleftrightarrow> prefix ''* '' l"
proof (cases l)
  case Nil
  then show ?thesis by (simp add: Join_Cons)
next
  case (Cons x l')
  assume "NL \<notin> set l"
  with Cons show ?thesis
    by (cases l') (auto simp: Join_Cons)
qed

text \<open>The bullet step on one line.\<close>

lemma normalizeBullet_newline: "NL \<notin> set l \<Longrightarrow> NL \<notin> set (normalizeBullet l)"
  by (auto simp: normalizeBullet_def TrimPrefix_def HasPrefix_def dest: in_set_dropD)

lemma normalizeBullet_empty: "normalizeBullet l = [] \<longleftrightarrow> l = []"
  by (auto simp: normalizeBullet_def HasPrefix_def)

lemma normalizeBullet_no_star: "\<not> prefix ''* '' (normalizeBullet l)"
  by (auto simp: normalizeBullet_def HasPrefix_def)

lemma normalizeBullet_id: "\<not> prefix ''* '' l \<Longrightarrow> normalizeBullet l = l"
  by (auto simp: normalizeBullet_def TrimPrefix_def HasPrefix_def prefix_def)

lemma normalizeBullet_star: "prefix ''* '' l \<Longrightarrow> prefix ''- '' (normalizeBullet l)"
  by (simp add: normalizeBullet_def HasPrefix_def)

text \<open>The bullet step on all lines keeps runs of newlines and leaves no starred line.\<close>

definition newlineFree :: "string list \<Rightarrow> bool" where
  "newlineFree ls = (\<forall>l\<in>set ls. NL \<notin> set l)"

lemma prefix_newlines_bullets:
  "newlineFree ls \<Longrightarrow>
   prefix (replicate k NL) (Join (map normalizeBullet ls) [NL])
     \<longleftrightarrow> prefix (replicate k NL) (Join ls [NL])"
proof (induction k arbitrary: ls)
  case 0
  then show ?case by simp
next
  case (Suc k)
  show ?case
  proof (cases ls)
    case Nil
    then show ?thesis by simp
  next
    case (Cons l rest)
    with Suc.prems have l: "NL \<notin> set l" and rest: "newlineFree rest"
      by (simp_all add: newlineFree_def)
    from l have l': "NL \<notin> set (normalizeBullet l)"
      by (rule normalizeBullet_newline)
    have "prefix (replicate (Suc k) NL) (Join (map normalizeBullet ls) [NL])
        \<longleftrightarrow> normalizeBullet l = [] \<and> map normalizeBullet rest \<noteq> []
            \<and> prefix (replicate k NL) (Join (map normalizeBullet rest) [NL])"
      using prefix_newline_Join [OF l', of "replicate k NL" "map normalizeBullet rest"] Cons
      by simp
    also have "\<dots> \<longleftrightarrow> l = [] \<and> rest \<noteq> [] \<and> prefix (replicate k NL) (Join rest [NL])"
      using Suc.IH [OF rest] by (simp add: normalizeBullet_empty)
    also have "\<dots> \<longleftrightarrow> prefix (replicate (Suc k) NL) (Join ls [NL])"
      using prefix_newline_Join [OF l, of "replicate k NL" rest] Cons by simp
    finally show ?thesis .
  qed
qed

lemma blank_lines_bullets:
  "newlineFree ls \<Longrightarrow>
   sublist [NL, NL, NL] (Join (map normalizeBullet ls) [NL]) \<longleftrightarrow> sublist [NL, NL, NL] (Join ls [NL])"
proof (induction ls)
  case Nil
  then show ?case by simp
next
  case (Cons l rest)
  then have l: "NL \<notin> set l" and rest: "newlineFree rest"
    by (simp_all add: newlineFree_def)
  from l have l': "NL \<notin> set (normalizeBullet l)"
    by (rule normalizeBullet_newline)
  show ?case
  proof (cases "rest = []")
    case True
    with l l' show ?thesis
      by (simp add: no_newline_pattern)
  next
    case False
    have two: "[NL, NL] = replicate 2 NL"
      by (simp add: numeral_2_eq_2)
    have "sublist [NL, NL, NL] (Join (map normalizeBullet (l # rest)) [NL])
        \<longleftrightarrow> prefix [NL, NL] (Join (map normalizeBullet rest) [NL])
            \<or> sublist [NL, NL, NL] (Join (map normalizeBullet rest) [NL])"
      using False sublist_across_line [OF l', of "[NL, NL]" "Join (map normalizeBullet rest) [NL]"]
      by (simp add: Join_Cons)
    also have "\<dots> \<longleftrightarrow> prefix [NL, NL] (Join rest [NL]) \<or> sublist [NL, NL, NL] (Join rest [NL])"
      using Cons.IH [OF rest] prefix_newlines_bullets [OF rest, of 2] by (simp add: two)
    also have "\<dots> \<longleftrightarrow> sublist [NL, NL, NL] (Join (l # rest) [NL])"
      using False sublist_across_line [OF l, of "[NL, NL]" "Join rest [NL]"]
      by (simp add: Join_Cons)
    finally show ?thesis .
  qed
qed

lemma no_starred_line_after_bullets:
  "newlineFree ls \<Longrightarrow>
   \<not> sublist [NL, CHR ''*'', CHR '' ''] (Join (map normalizeBullet ls) [NL])"
proof (induction ls)
  case Nil
  then show ?case by simp
next
  case (Cons l rest)
  then have l: "NL \<notin> set l" and rest: "newlineFree rest"
    by (simp_all add: newlineFree_def)
  from l have l': "NL \<notin> set (normalizeBullet l)"
    by (rule normalizeBullet_newline)
  show ?case
  proof (cases rest)
    case Nil
    with l' show ?thesis
      by (simp add: no_newline_pattern)
  next
    case (Cons l2 rest2)
    with rest have "NL \<notin> set (normalizeBullet l2)"
      by (simp add: newlineFree_def normalizeBullet_newline)
    then have "\<not> prefix ''* '' (Join (map normalizeBullet rest) [NL])"
      using Cons prefix_bullet_Join [of "normalizeBullet l2" "map normalizeBullet rest2"]
        normalizeBullet_no_star [of l2]
      by simp
    moreover have "\<not> sublist [NL, CHR ''*'', CHR '' ''] (Join (map normalizeBullet rest) [NL])"
      using Cons.IH rest by simp
    ultimately show ?thesis
      using Cons sublist_across_line [OF l', of "''* ''" "Join (map normalizeBullet rest) [NL]"]
      by (simp add: Join_Cons)
  qed
qed

lemma unstarred_lines:
  "newlineFree ls \<Longrightarrow> ls \<noteq> [] \<Longrightarrow> \<not> prefix ''* '' (Join ls [NL]) \<Longrightarrow>
   \<not> sublist [NL, CHR ''*'', CHR '' ''] (Join ls [NL]) \<Longrightarrow>
   \<forall>l\<in>set ls. \<not> prefix ''* '' l"
proof (induction ls)
  case Nil
  then show ?case by simp
next
  case (Cons l rest)
  then have l: "NL \<notin> set l" and rest: "newlineFree rest"
    by (simp_all add: newlineFree_def)
  have first: "\<not> prefix ''* '' l"
    using Cons.prems(3) prefix_bullet_Join [OF l, of rest] by simp
  show ?case
  proof (cases "rest = []")
    case True
    with first show ?thesis by simp
  next
    case False
    from Cons.prems(4) False
    have "\<not> prefix ''* '' (Join rest [NL])"
      and "\<not> sublist [NL, CHR ''*'', CHR '' ''] (Join rest [NL])"
      using sublist_across_line [OF l, of "''* ''" "Join rest [NL]"]
      by (simp_all add: Join_Cons)
    with Cons.IH rest False have "\<forall>l\<in>set rest. \<not> prefix ''* '' l"
      by simp
    with first show ?thesis by simp
  qed
qed

text \<open>Trimming.\<close>

lemma TrimLeftSpace_suffix: "suffix (TrimLeftSpace s) s"
proof (induction s rule: TrimLeftSpace.induct)
  case (1 s)
  show ?case
  proof (cases "leadingSpace s")
    case None
    then show ?thesis by (subst TrimLeftSpace.simps) simp
  next
    case (Some w)
    with 1 have "suffix (TrimLeftSpace (drop (length w) s)) (drop (length w) s)" by simp
    then have "suffix (TrimLeftSpace (drop (length w) s)) s"
      using suffix_drop suffix_order.trans by blast
    with Some show ?thesis by (subst TrimLeftSpace.simps) simp
  qed
qed

lemma TrimRightSpace_prefix: "prefix (TrimRightSpace s) s"
proof (induction s rule: TrimRightSpace.induct)
  case (1 s)
  show ?case
  proof (cases "trailingSpace s")
    case None
    then show ?thesis by (subst TrimRightSpace.simps) simp
  next
    case (Some w)
    with 1 have "prefix (TrimRightSpace (take (length s - length w) s)) (take (length s - length w) s)"
      by simp
    then have "prefix (TrimRightSpace (take (length s - length w) s)) s"
      using take_is_prefix prefix_order.trans by blast
    with Some show ?thesis by (subst TrimRightSpace.simps) simp
  qed
qed

lemma sublist_chain: "sublist xs ys \<Longrightarrow> sublist ys zs \<Longrightarrow> sublist xs zs"
  unfolding sublist_def by (metis append.assoc)

lemma TrimSpace_sublist: "sublist (TrimSpace s) s"
proof -
  have "sublist (TrimRightSpace (TrimLeftSpace s)) (TrimLeftSpace s)"
    using TrimRightSpace_prefix by blast
  moreover have "sublist (TrimLeftSpace s) s"
    using TrimLeftSpace_suffix by blast
  ultimately show ?thesis
    unfolding TrimSpace_def using sublist_chain by blast
qed

lemma TrimLeftSpace_done: "leadingSpace (TrimLeftSpace s) = None"
proof (induction s rule: TrimLeftSpace.induct)
  case (1 s)
  show ?case
  proof (cases "leadingSpace s")
    case None
    then have "TrimLeftSpace s = s" by (subst TrimLeftSpace.simps) simp
    with None show ?thesis by simp
  next
    case (Some w)
    then have "TrimLeftSpace s = TrimLeftSpace (drop (length w) s)"
      by (subst TrimLeftSpace.simps) simp
    with 1 Some show ?thesis by simp
  qed
qed

lemma TrimRightSpace_done: "trailingSpace (TrimRightSpace s) = None"
proof (induction s rule: TrimRightSpace.induct)
  case (1 s)
  show ?case
  proof (cases "trailingSpace s")
    case None
    then have "TrimRightSpace s = s" by (subst TrimRightSpace.simps) simp
    with None show ?thesis by simp
  next
    case (Some w)
    then have "TrimRightSpace s = TrimRightSpace (take (length s - length w) s)"
      by (subst TrimRightSpace.simps) simp
    with 1 Some show ?thesis by simp
  qed
qed

lemma TrimLeftSpace_id: "leadingSpace s = None \<Longrightarrow> TrimLeftSpace s = s"
  by (subst TrimLeftSpace.simps) simp

lemma TrimRightSpace_id: "trailingSpace s = None \<Longrightarrow> TrimRightSpace s = s"
  by (subst TrimRightSpace.simps) simp

lemma leadingSpace_prefix:
  assumes "leadingSpace s = None" and "prefix p s"
  shows "leadingSpace p = None"
proof (rule ccontr)
  assume "leadingSpace p \<noteq> None"
  then obtain w where "leadingSpace p = Some w" by auto
  then have "w \<in> set spaceSeqs" and "prefix w p"
    by (auto simp: leadingSpace_def find_Some_iff)
  with assms(2) have "w \<in> set spaceSeqs" and "prefix w s"
    using prefix_order.trans by blast+
  with assms(1) show False
    by (auto simp: leadingSpace_def find_None_iff)
qed

lemma TrimSpace_idem: "TrimSpace (TrimSpace s) = TrimSpace s"
proof -
  have "leadingSpace (TrimSpace s) = None"
    unfolding TrimSpace_def
    using leadingSpace_prefix [OF TrimLeftSpace_done TrimRightSpace_prefix] .
  then have "TrimLeftSpace (TrimSpace s) = TrimSpace s"
    by (rule TrimLeftSpace_id)
  moreover have "TrimRightSpace (TrimSpace s) = TrimSpace s"
    unfolding TrimSpace_def using TrimRightSpace_done by (rule TrimRightSpace_id)
  ultimately show ?thesis
    by (simp add: TrimSpace_def)
qed

lemma spaceSeqs_no_dash: "w \<in> set spaceSeqs \<Longrightarrow> w \<noteq> [] \<and> hd w \<noteq> CHR ''-''"
  by (auto simp: spaceSeqs_def)

lemma leadingSpace_dash: "leadingSpace (CHR ''-'' # s) = None"
proof -
  have "\<not> prefix w (CHR ''-'' # s)" if "w \<in> set spaceSeqs" for w
    using spaceSeqs_no_dash [OF that] by (cases w) auto
  then show ?thesis
    by (auto simp: leadingSpace_def find_None_iff)
qed

lemma TrimRightSpace_dash:
  "s \<noteq> [] \<Longrightarrow> hd s = CHR ''-'' \<Longrightarrow>
   TrimRightSpace s \<noteq> [] \<and> hd (TrimRightSpace s) = CHR ''-''"
proof (induction s rule: TrimRightSpace.induct)
  case (1 s)
  show ?case
  proof (cases "trailingSpace s")
    case None
    then have "TrimRightSpace s = s" by (rule TrimRightSpace_id)
    with 1 show ?thesis by simp
  next
    case (Some w)
    then have w: "w \<in> set spaceSeqs" and suf: "suffix w s"
      by (auto simp: trailingSpace_def find_Some_iff)
    from suf obtain pre where s: "s = pre @ w"
      by (auto simp: suffix_def)
    have pre: "take (length s - length w) s = pre"
      using s by simp
    have "pre \<noteq> []"
    proof
      assume "pre = []"
      with s have "s = w" by simp
      with w "1.prems" spaceSeqs_no_dash show False by blast
    qed
    with s "1.prems" have "hd pre = CHR ''-''" by simp
    with "1.IH" [OF Some] pre \<open>pre \<noteq> []\<close>
    have "TrimRightSpace pre \<noteq> [] \<and> hd (TrimRightSpace pre) = CHR ''-''" by simp
    moreover have "TrimRightSpace s = TrimRightSpace pre"
      using Some pre by (subst TrimRightSpace.simps) simp
    ultimately show ?thesis by simp
  qed
qed

text \<open>The normalized text.\<close>

lemma cleanMarkdown_steps:
  "cleanMarkdown s =
     TrimSpace (Join (map normalizeBullet (Split (collapseBlankLines s) [NL])) [NL])"
  by (simp add: cleanMarkdown_def ReplaceAll_same)

lemma Split_newlineFree: "newlineFree (Split s [NL])"
  using Split_lines by (auto simp: newlineFree_def)

lemma cleanMarkdown_no_blank_run: "\<not> sublist [NL, NL, NL] (cleanMarkdown s)"
proof
  assume "sublist [NL, NL, NL] (cleanMarkdown s)"
  then have "sublist [NL, NL, NL]
      (Join (map normalizeBullet (Split (collapseBlankLines s) [NL])) [NL])"
    unfolding cleanMarkdown_steps using TrimSpace_sublist sublist_chain by blast
  then have "sublist [NL, NL, NL] (Join (Split (collapseBlankLines s) [NL]) [NL])"
    using blank_lines_bullets [OF Split_newlineFree] by blast
  then show False
    using collapseBlankLines_clean by (simp add: Join_Split)
qed

lemma cleanMarkdown_no_starred_line:
  "\<not> sublist [NL, CHR ''*'', CHR '' ''] (cleanMarkdown s)"
proof
  assume "sublist [NL, CHR ''*'', CHR '' ''] (cleanMarkdown s)"
  then have "sublist [NL, CHR ''*'', CHR '' '']
      (Join (map normalizeBullet (Split (collapseBlankLines s) [NL])) [NL])"
    unfolding cleanMarkdown_steps using TrimSpace_sublist sublist_chain by blast
  then show False
    using no_starred_line_after_bullets [OF Split_newlineFree] by blast
qed

lemma cleanMarkdown_trimmed: "TrimSpace (cleanMarkdown s) = cleanMarkdown s"
  by (simp add: cleanMarkdown_steps TrimSpace_idem)

text \<open>
  C4, amended. Normalizing a normalized text changes nothing exactly when the
  normalized text does not begin with the bullet marker \<^verbatim>\<open>* \<close>: for every \<open>s\<close>,
  \<open>cleanMarkdown (cleanMarkdown s) = cleanMarkdown s\<close> if and only if
  \<open>cleanMarkdown s\<close> does not begin with \<^verbatim>\<open>* \<close>. (It begins so only when the trimming,
  which comes after the bullet step, removes white space in front of a starred
  line.)
\<close>

theorem cleanMarkdown_idempotent_iff:
  "cleanMarkdown (cleanMarkdown s) = cleanMarkdown s \<longleftrightarrow> \<not> HasPrefix (cleanMarkdown s) ''* ''"
proof -
  let ?t = "cleanMarkdown s"
  have again: "cleanMarkdown ?t = TrimSpace (Join (map normalizeBullet (Split ?t [NL])) [NL])"
    using cleanMarkdown_no_blank_run [of s]
    by (simp add: cleanMarkdown_steps [of ?t] collapseBlankLines_id)
  have lines: "newlineFree (Split ?t [NL])" and some: "Split ?t [NL] \<noteq> []"
    by (rule Split_newlineFree, rule Split_nonempty)
  show ?thesis
  proof (cases "prefix ''* '' ?t")
    case False
    then have "\<forall>l\<in>set (Split ?t [NL]). \<not> prefix ''* '' l"
      using unstarred_lines [OF lines some] cleanMarkdown_no_starred_line [of s]
      by (simp add: Join_Split)
    then have "map normalizeBullet (Split ?t [NL]) = Split ?t [NL]"
      by (simp add: map_idI normalizeBullet_id)
    with again have "cleanMarkdown ?t = ?t"
      by (simp add: Join_Split cleanMarkdown_trimmed)
    with False show ?thesis
      by (simp add: HasPrefix_def)
  next
    case True
    obtain l rest where split: "Split ?t [NL] = l # rest"
      using some by (cases "Split ?t [NL]") auto
    with lines have l: "NL \<notin> set l"
      by (simp add: newlineFree_def)
    have "prefix ''* '' (Join (l # rest) [NL])"
      using True split Join_Split [of ?t] by simp
    then have "prefix ''* '' l"
      using prefix_bullet_Join [OF l] by simp
    then have "prefix ''- '' (normalizeBullet l)"
      by (rule normalizeBullet_star)
    then obtain y where "normalizeBullet l = CHR ''-'' # y"
      by (auto simp: prefix_def)
    then have "\<exists>x. Join (map normalizeBullet (l # rest)) [NL] = CHR ''-'' # x"
      by (simp add: Join_Cons)
    then obtain x where "Join (map normalizeBullet (l # rest)) [NL] = CHR ''-'' # x"
      by blast
    then have "cleanMarkdown ?t = TrimRightSpace (CHR ''-'' # x)"
      using again split by (simp add: TrimSpace_def TrimLeftSpace_id leadingSpace_dash)
    then have "cleanMarkdown ?t \<noteq> [] \<and> hd (cleanMarkdown ?t) = CHR ''-''"
      using TrimRightSpace_dash [of "CHR ''-'' # x"] by simp
    moreover from True have "hd ?t = CHR ''*''"
      by (auto simp: prefix_def)
    ultimately have "cleanMarkdown ?t \<noteq> ?t"
      by auto
    with True show ?thesis
      by (simp add: HasPrefix_def)
  qed
qed

text \<open>
  C4, as stated, fails: the text \<^verbatim>\<open> * a\<close> (with a leading space) is normalized to
  \<^verbatim>\<open>* a\<close>, and that to \<^verbatim>\<open>- a\<close>.
\<close>

theorem cleanMarkdown_idempotent_counterexample:
  "cleanMarkdown (cleanMarkdown '' * a'') \<noteq> cleanMarkdown '' * a''"
  by code_simp

theorem cleanMarkdown_idempotent_iff_witness:
  "\<not> HasPrefix (cleanMarkdown [CHR ''a'', NL, NL, NL, NL, CHR ''*'', CHR '' '', CHR ''b'', CHR '' '']) ''* '' \<and>
   cleanMarkdown (cleanMarkdown [CHR ''a'', NL, NL, NL, NL, CHR ''*'', CHR '' '', CHR ''b'', CHR '' ''])
     = cleanMarkdown [CHR ''a'', NL, NL, NL, NL, CHR ''*'', CHR '' '', CHR ''b'', CHR '' ''] \<and>
   cleanMarkdown [CHR ''a'', NL, NL, NL, NL, CHR ''*'', CHR '' '', CHR ''b'', CHR '' '']
     = [CHR ''a'', NL, NL, CHR ''-'', CHR '' '', CHR ''b'']"
proof -
  let ?s = "[CHR ''a'', NL, NL, NL, NL, CHR ''*'', CHR '' '', CHR ''b'', CHR '' '']"
  have clean: "cleanMarkdown ?s = [CHR ''a'', NL, NL, CHR ''-'', CHR '' '', CHR ''b'']"
    by code_simp
  then have plain: "\<not> HasPrefix (cleanMarkdown ?s) ''* ''"
    by (simp add: HasPrefix_def)
  from cleanMarkdown_idempotent_iff [of ?s] show ?thesis
    using plain clean by simp
qed

end
